theory Spec2Isabelle
  imports Complex_Main "HOL-Library.Sublist"
begin

section \<open>ECMAScript strings\<close>

text \<open>
  An ECMAScript string is a sequence of UTF-16 code units; \<open>length\<close>, \<open>includes\<close>,
  \<open>split\<close> and the regular expressions of the sources (none has the \<open>u\<close> flag) all
  work on code units. A code unit is modelled as a natural number (below 65536 for every
  real string), a string as the list of its code units. \<open>str\<close> embeds an ASCII literal.
\<close>

type_synonym jsstring = "nat list"

definition str :: "string \<Rightarrow> jsstring" where
  "str s = map of_char s"

text \<open>
  White space and line terminators of ECMAScript: what \<open>\s\<close> matches and what
  \<open>String.prototype.trim\<close> removes.
\<close>

definition is_space :: "nat \<Rightarrow> bool" where
  "is_space c \<longleftrightarrow>
     c = 9 \<or> c = 10 \<or> c = 11 \<or> c = 12 \<or> c = 13 \<or> c = 32 \<or> c = 160 \<or> c = 5760 \<or>
     (8192 \<le> c \<and> c \<le> 8202) \<or> c = 8232 \<or> c = 8233 \<or> c = 8239 \<or> c = 8287 \<or>
     c = 12288 \<or> c = 65279"

definition is_digit :: "nat \<Rightarrow> bool" where
  "is_digit c \<longleftrightarrow> 48 \<le> c \<and> c \<le> 57"

text \<open>
  \<open>String.prototype.toLowerCase\<close>, on the code units up to U+00FF (ASCII and Latin-1
  capitals move up by 32; U+00D7 is the multiplication sign). Code units above U+00FF
  are left as they are: the Unicode case tables beyond Latin-1 are not modelled, so on a
  text with such capitals (U+212A, the Kelvin sign, folds to \<open>k\<close>; U+0130 to \<open>i\<close> and
  U+0307) the function here differs from the platform's. On a string of code units up
  to U+00FF it is the platform's function.
\<close>

definition lower_unit :: "nat \<Rightarrow> nat" where
  "lower_unit c =
     (if (65 \<le> c \<and> c \<le> 90) \<or> (192 \<le> c \<and> c \<le> 222 \<and> c \<noteq> 215) then c + 32 else c)"

definition toLowerCase :: "jsstring \<Rightarrow> jsstring" where
  "toLowerCase s = map lower_unit s"

text \<open>\<open>s.startsWith(p)\<close> is \<^const>\<open>prefix\<close> \<open>p s\<close>; \<open>s.includes(p)\<close> tries every position.\<close>

fun js_includes :: "jsstring \<Rightarrow> jsstring \<Rightarrow> bool" where
  "js_includes [] p = (p = [])"
| "js_includes (c # cs) p = (prefix p (c # cs) \<or> js_includes cs p)"

definition trim :: "jsstring \<Rightarrow> jsstring" where
  "trim s = rev (dropWhile is_space (rev (dropWhile is_space s)))"

fun join :: "jsstring \<Rightarrow> jsstring list \<Rightarrow> jsstring" where
  "join sep [] = []"
| "join sep [x] = x"
| "join sep (x # y # ys) = x @ sep @ join sep (y # ys)"

subsection \<open>Regular expressions\<close>

text \<open>
  The fragment of ECMAScript patterns the sources use: the empty pattern, a single code
  unit, the classes
  \<open>\d\<close> and \<open>\s\<close>, the greedy quantifiers \<open>+\<close> and \<open>*\<close> on a class, sequence and
  alternation. \<open>matches\<close> returns the remainders of the input after each way of matching
  the pattern at its start, in the order in which the backtracking matcher tries them
  (left alternative first, longest repetition first).

  Under the \<open>i\<close> flag two code units match when they canonicalise to the same unit.
  Without the \<open>u\<close> flag the canonical form is the upper-case form, except that a code
  unit from U+0080 on never canonicalises to an ASCII one; the patterns here hold ASCII
  code units only, so a literal matches itself and its other ASCII case.
\<close>

datatype cls = Lit nat | Digit | Space

datatype regex =
    Eps
  | One cls
  | Plus cls
  | Star cls
  | Seq regex regex
  | Alt regex regex

definition ascii_upper :: "nat \<Rightarrow> nat" where
  "ascii_upper c = (if 97 \<le> c \<and> c \<le> 122 then c - 32 else c)"

fun cls_match :: "bool \<Rightarrow> cls \<Rightarrow> nat \<Rightarrow> bool" where
  "cls_match ignoreCase (Lit p) c =
     (if ignoreCase then ascii_upper c = ascii_upper p else c = p)"
| "cls_match ignoreCase Digit c = is_digit c"
| "cls_match ignoreCase Space c = is_space c"

fun matches :: "bool \<Rightarrow> regex \<Rightarrow> jsstring \<Rightarrow> jsstring list" where
  "matches i Eps s = [s]"
| "matches i (One k) s =
     (case s of [] \<Rightarrow> [] | c # cs \<Rightarrow> if cls_match i k c then [cs] else [])"
| "matches i (Plus k) s =
     map (\<lambda>n. drop n s) (rev [1 ..< Suc (length (takeWhile (cls_match i k) s))])"
| "matches i (Star k) s =
     map (\<lambda>n. drop n s) (rev [0 ..< Suc (length (takeWhile (cls_match i k) s))])"
| "matches i (Seq r1 r2) s = concat (map (matches i r2) (matches i r1 s))"
| "matches i (Alt r1 r2) s = matches i r1 s @ matches i r2 s"

text \<open>A literal word as a pattern: the sequence of its code units.\<close>

fun literal :: "jsstring \<Rightarrow> regex" where
  "literal [] = Eps"
| "literal (c # cs) = Seq (One (Lit c)) (literal cs)"

text \<open>
  \<open>re.test(s)\<close> for a pattern created where it is used (its \<open>lastIndex\<close> is 0): is there
  a position of \<open>s\<close> at which the pattern matches?
\<close>

fun test :: "bool \<Rightarrow> regex \<Rightarrow> jsstring \<Rightarrow> bool" where
  "test i r [] = (matches i r [] \<noteq> [])"
| "test i r (c # cs) = (matches i r (c # cs) \<noteq> [] \<or> test i r cs)"

text \<open>
  \<open>s.split(/\s+/)\<close>: the pieces of \<open>s\<close> between the maximal runs of white space. The
  piece before a leading run and the piece after a trailing run are empty strings, and
  the empty string splits into one empty piece.
\<close>

function split_ws_from :: "jsstring \<Rightarrow> jsstring \<Rightarrow> jsstring list" where
  "split_ws_from piece [] = [piece]"
| "split_ws_from piece (c # cs) =
     (if is_space c then piece # split_ws_from [] (dropWhile is_space cs)
      else split_ws_from (piece @ [c]) cs)"
  by pat_completeness auto
termination
  by (relation "measure (\<lambda>(piece, s). length s)")
     (auto simp: length_dropWhile_le less_Suc_eq_le)

definition split_ws :: "jsstring \<Rightarrow> jsstring list" where
  "split_ws s = split_ws_from [] s"

section \<open>The suggestion engine (AISuggestionsPanel.tsx)\<close>

datatype suggestion_type = Content | Format | Keyword | Structure

datatype suggestion_priority = High | Medium | Low

record Suggestion =
  id' :: jsstring
  type' :: suggestion_type
  section' :: jsstring
  priority :: suggestion_priority
  title :: jsstring
  description :: jsstring
  suggestion :: jsstring
  applied :: bool

text \<open>
  The values an expression of the engine can have: \<open>keywordMap[roleKey]\<close> is typed as an
  array of strings, but at run time a property read goes through the object's prototype
  chain and yields whatever it finds there.
\<close>

datatype jsvalue =
    Undefined
  | Array "jsstring list"
  | Function jsstring
  | ObjectPrototype

datatype js_error = TypeError

fun truthy :: "jsvalue \<Rightarrow> bool" where
  "truthy Undefined = False"
| "truthy (Array ks) = True"
| "truthy (Function f) = True"
| "truthy ObjectPrototype = True"

definition js_or :: "jsvalue \<Rightarrow> jsvalue \<Rightarrow> jsvalue" where
  "js_or a b = (if truthy a then a else b)"

text \<open>\<open>x || d\<close> for an optional string \<open>x\<close>: \<open>undefined\<close> and the empty string are falsy.\<close>

fun or_default :: "jsstring option \<Rightarrow> jsstring \<Rightarrow> jsstring" where
  "or_default None d = d"
| "or_default (Some s) d = (if s = [] then d else s)"

text \<open>The own properties of the object literal \<open>keywordMap\<close>, in the order written.\<close>

definition keywordMap :: "(jsstring \<times> jsstring list) list" where
  "keywordMap =
    [(str ''software engineer'',
        map str [''JavaScript'', ''Python'', ''React'', ''Node.js'', ''API'', ''Git'', ''Agile'']),
     (str ''data scientist'',
        map str [''Python'', ''R'', ''Machine Learning'', ''SQL'', ''Statistics'', ''TensorFlow'']),
     (str ''research scientist'',
        map str [''Research'', ''Publications'', ''Statistical Analysis'', ''Data Analysis'',
                 ''Methodology'']),
     (str ''product manager'',
        map str [''Product Strategy'', ''Roadmap'', ''Stakeholder Management'', ''Analytics'',
                 ''User Research'']),
     (str ''default'',
        map str [''Leadership'', ''Problem Solving'', ''Communication'', ''Teamwork'',
                 ''Project Management''])]"

text \<open>
  The function-valued properties of \<open>Object.prototype\<close>, which every object literal
  inherits. Its accessor property \<open>__proto__\<close> yields the prototype itself.
\<close>

definition object_prototype_functions :: "jsstring list" where
  "object_prototype_functions =
     map str [''constructor'', ''hasOwnProperty'', ''isPrototypeOf'', ''propertyIsEnumerable'',
              ''toLocaleString'', ''toString'', ''valueOf'', ''__defineGetter__'',
              ''__defineSetter__'', ''__lookupGetter__'', ''__lookupSetter__'']"

text \<open>\<open>keywordMap[key]\<close>: an own property first, then the prototype chain.\<close>

definition keywordMap_get :: "jsstring \<Rightarrow> jsvalue" where
  "keywordMap_get key =
     (case map_of keywordMap key of
        Some ks \<Rightarrow> Array ks
      | None \<Rightarrow>
          if key = str ''__proto__'' then ObjectPrototype
          else if key \<in> set object_prototype_functions then Function key
          else Undefined)"

definition getRoleSpecificKeywords :: "jsstring \<Rightarrow> jsstring \<Rightarrow> jsvalue" where
  "getRoleSpecificKeywords role area =
     (let roleKey = toLowerCase role
      in js_or (keywordMap_get roleKey) (keywordMap_get (str ''default'')))"

text \<open>\<open>getSectionSpecificSuggestions\<close>; U+2022 (8226) is the bullet.\<close>

definition getSectionSpecificSuggestions ::
    "jsstring \<Rightarrow> jsstring \<Rightarrow> jsstring \<Rightarrow> Suggestion list" where
  \<open>getSectionSpecificSuggestions sec content role =
     (if sec = str ''summary'' \<or> sec = str ''professional-summary''
      then (if length content < 100
            then [\<lparr> id' = str ''summary-expand'',
                    type' = Content,
                    section' = str ''summary'',
                    priority = High,
                    title = str ''Expand Professional Summary'',
                    description = str
                      ''Your summary should be 2-3 sentences highlighting key achievements.'',
                    suggestion = str ''Write a compelling summary mentioning your '' @ role @
                      str '' experience and key accomplishments.'',
                    applied = False \<rparr>]
            else [])
      else []) @
     (if sec = str ''skills'' \<or> sec = str ''technical-skills''
      then (if \<not> js_includes content [8226] \<and> \<not> js_includes content (str ''-'')
            then [\<lparr> id' = str ''skills-format'',
                    type' = Format,
                    section' = str ''skills'',
                    priority = Medium,
                    title = str ''Format Skills Section'',
                    description = str ''Use bullet points to organize your skills.'',
                    suggestion = str
                      ''Organize skills into categories with bullet points for better readability.'',
                    applied = False \<rparr>]
            else [])
      else [])\<close>

text \<open>
  The two patterns of the engine, both with the flags \<open>gi\<close>:
  \<^verbatim>\<open>/\d+%|\d+\+|\$\d+|increased|improved|reduced/\<close> and
  \<^verbatim>\<open>/led|managed|developed|created|implemented|designed|optimized/\<close>.
\<close>

definition quantified_pattern :: regex where
  "quantified_pattern =
     Alt (Seq (Plus Digit) (One (Lit 37)))
    (Alt (Seq (Plus Digit) (One (Lit 43)))
    (Alt (Seq (One (Lit 36)) (Plus Digit))
    (Alt (literal (str ''increased''))
    (Alt (literal (str ''improved''))
         (literal (str ''reduced''))))))"

definition action_verb_pattern :: regex where
  "action_verb_pattern =
     Alt (literal (str ''led''))
    (Alt (literal (str ''managed''))
    (Alt (literal (str ''developed''))
    (Alt (literal (str ''created''))
    (Alt (literal (str ''implemented''))
    (Alt (literal (str ''designed''))
         (literal (str ''optimized'')))))))"

text \<open>
  \<open>generateRealTimeSuggestions\<close>. The function is \<open>async\<close>: \<open>Inr\<close> is the list its promise
  resolves to, \<open>Inl\<close> the error the promise is rejected with. The only expression of the
  body that can throw is the call \<open>roleKeywords.filter(...)\<close>, when \<open>roleKeywords\<close> is
  not an array.
\<close>

definition generateRealTimeSuggestions ::
    "jsstring \<Rightarrow> jsstring \<Rightarrow> jsstring \<Rightarrow> jsstring option \<Rightarrow> js_error + Suggestion list" where
  \<open>generateRealTimeSuggestions content role area sec =
     (let wordCount = length (split_ws content);
          hasQuantifiedAchievements = test True quantified_pattern content;
          hasActionVerbs = test True action_verb_pattern content;
          roleKeywords = getRoleSpecificKeywords role area
      in case roleKeywords of
           Array ks \<Rightarrow>
             (let missingKeywords =
                    filter (\<lambda>keyword.
                      \<not> js_includes (toLowerCase content) (toLowerCase keyword)) ks
              in Inr (
                (if wordCount < 200
                 then [\<lparr> id' = str ''word-count'',
                         type' = Content,
                         section' = or_default sec (str ''overall''),
                         priority = High,
                         title = str ''Expand Content'',
                         description =
                           str ''Your resume is too brief. Add more detailed achievements.'',
                         suggestion = str
                           ''Add 2-3 more bullet points with specific accomplishments and metrics.'',
                         applied = False \<rparr>]
                 else []) @
                (if \<not> hasQuantifiedAchievements
                 then [\<lparr> id' = str ''quantify'',
                         type' = Content,
                         section' = or_default sec (str ''experience''),
                         priority = High,
                         title = str ''Add Quantified Results'',
                         description =
                           str ''Include specific numbers and percentages to show impact.'',
                         suggestion = str
                           ''Replace generic statements with metrics like "Increased efficiency by 40%" or "Managed team of 5+".'',
                         applied = False \<rparr>]
                 else []) @
                (if \<not> hasActionVerbs
                 then [\<lparr> id' = str ''action-verbs'',
                         type' = Content,
                         section' = or_default sec (str ''experience''),
                         priority = Medium,
                         title = str ''Use Strong Action Verbs'',
                         description = str ''Start bullet points with powerful action verbs.'',
                         suggestion = str
                           ''Begin achievements with words like: Led, Architected, Optimized, Implemented, Designed.'',
                         applied = False \<rparr>]
                 else []) @
                (if length missingKeywords > 0
                 then [\<lparr> id' = str ''keywords'',
                         type' = Keyword,
                         section' = str ''skills'',
                         priority = High,
                         title = str ''Add '' @ role @ str '' Keywords'',
                         description = str ''Missing key terms for '' @ role @ str '' positions.'',
                         suggestion = str ''Consider adding: '' @
                           join (str '', '') (take 5 missingKeywords),
                         applied = False \<rparr>]
                 else []) @
                (case sec of
                   None \<Rightarrow> []
                 | Some s \<Rightarrow>
                     if s \<noteq> [] then getSectionSpecificSuggestions s content role else [])))
         | _ \<Rightarrow> Inl TypeError)\<close>

text \<open>
  The panel's debounced callback \<open>analyzeContent\<close>, as a function from the suggestion
  list the panel shows to the one it shows afterwards (the delay and the \<open>loading\<close> flag
  are left out). The callback returns at once on an empty text or role, and logs a
  rejection of the engine without touching the list.
\<close>

definition analyzeContent ::
    "Suggestion list \<Rightarrow> jsstring \<Rightarrow> jsstring \<Rightarrow> jsstring \<Rightarrow> jsstring option \<Rightarrow> Suggestion list" where
  "analyzeContent suggestions content role area currentSection =
     (if content = [] \<or> role = [] then suggestions
      else case generateRealTimeSuggestions content role area currentSection of
             Inr newSuggestions \<Rightarrow> newSuggestions
           | Inl error \<Rightarrow> suggestions)"

section \<open>JSON\<close>

text \<open>
  JSON values, and \<open>JSON.parse\<close> after ECMA-404: which texts it accepts, and the value
  each denotes. An object keeps its members as the text has them, in its order; a later
  member with the same key wins on lookup. A number is the exact decimal its text
  denotes. What the platform does beyond that to build its own objects is not modelled:
  it keeps one member per key, enumerates keys that are array indices first, and rounds
  a number to a double. For a text with distinct keys that are not array indices and
  numbers that are doubles, the value here is the platform's.
\<close>

datatype json =
    JNull
  | JBool bool
  | JNumber rat
  | JString jsstring
  | JArray "json list"
  | JObject "(jsstring \<times> json) list"

definition json_get :: "jsstring \<Rightarrow> json \<Rightarrow> json option" where
  "json_get key v = (case v of JObject members \<Rightarrow> map_of (rev members) key | _ \<Rightarrow> None)"

definition is_json_ws :: "nat \<Rightarrow> bool" where
  "is_json_ws c \<longleftrightarrow> c = 32 \<or> c = 9 \<or> c = 10 \<or> c = 13"

definition skip_ws :: "jsstring \<Rightarrow> jsstring" where
  "skip_ws s = dropWhile is_json_ws s"

definition digits_value :: "jsstring \<Rightarrow> nat" where
  "digits_value ds = foldl (\<lambda>a c. a * 10 + (c - 48)) 0 ds"

definition hex_value :: "nat \<Rightarrow> nat option" where
  "hex_value c =
     (if 48 \<le> c \<and> c \<le> 57 then Some (c - 48)
      else if 97 \<le> c \<and> c \<le> 102 then Some (c - 87)
      else if 65 \<le> c \<and> c \<le> 70 then Some (c - 55)
      else None)"

text \<open>
  An escape, after its backslash: one of \<open>" \ / b f n r t\<close>, or \<open>u\<close> (117) and four
  hexadecimal digits. The result is the code unit it stands for and the text after it.
\<close>

definition simple_escape :: "nat \<Rightarrow> nat option" where
  "simple_escape e =
     (if e = 34 \<or> e = 92 \<or> e = 47 then Some e
      else if e = 98 then Some 8
      else if e = 102 then Some 12
      else if e = 110 then Some 10
      else if e = 114 then Some 13
      else if e = 116 then Some 9
      else None)"

definition parse_escape :: "jsstring \<Rightarrow> (nat \<times> jsstring) option" where
  "parse_escape s =
     (case s of
        [] \<Rightarrow> None
      | e # r \<Rightarrow>
          if e = 117 then
            (case r of
               h1 # h2 # h3 # h4 # r' \<Rightarrow>
                 (case (hex_value h1, hex_value h2, hex_value h3, hex_value h4) of
                    (Some a, Some b, Some c, Some d) \<Rightarrow>
                      Some (((a * 16 + b) * 16 + c) * 16 + d, r')
                  | _ \<Rightarrow> None)
             | _ \<Rightarrow> None)
          else
            (case simple_escape e of None \<Rightarrow> None | Some u \<Rightarrow> Some (u, r)))"

text \<open>
  The characters of a string, after its opening quotation mark (34), up to the closing
  one; 92 is the backslash, and a control character (below 32) must be escaped.
\<close>

function parse_chars :: "jsstring \<Rightarrow> jsstring \<Rightarrow> (jsstring \<times> jsstring) option" where
  "parse_chars acc [] = None"
| "parse_chars acc (c # cs) =
     (if c = 34 then Some (acc, cs)
      else if c = 92 then
        (case parse_escape cs of
           None \<Rightarrow> None
         | Some (u, r) \<Rightarrow> parse_chars (acc @ [u]) r)
      else if c < 32 then None
      else parse_chars (acc @ [c]) cs)"
  by pat_completeness auto
termination
  by (relation "measure (\<lambda>(acc, s). length s)")
     (auto simp: parse_escape_def split: list.splits if_splits option.splits)

text \<open>
  A number: an optional minus sign (45), an integer part without a leading zero, an
  optional fraction after a point (46), an optional exponent after \<open>e\<close> or \<open>E\<close>.
\<close>

definition parse_exponent :: "jsstring \<Rightarrow> (rat \<times> jsstring) option" where
  "parse_exponent s =
     (case s of
        [] \<Rightarrow> Some (1, s)
      | c # r \<Rightarrow>
          if c = 101 \<or> c = 69 then
            (let negative = (r \<noteq> [] \<and> hd r = 45);
                 r' = (if r \<noteq> [] \<and> (hd r = 45 \<or> hd r = 43) then tl r else r);
                 ds = takeWhile is_digit r'
             in if ds = [] then None
                else Some (if negative then 1 / 10 ^ digits_value ds else 10 ^ digits_value ds,
                           dropWhile is_digit r'))
          else Some (1, s))"

definition parse_fraction :: "jsstring \<Rightarrow> (rat \<times> jsstring) option" where
  "parse_fraction s =
     (case s of
        [] \<Rightarrow> Some (0, s)
      | c # r \<Rightarrow>
          if c = 46 then
            (let ds = takeWhile is_digit r
             in if ds = [] then None
                else Some (of_nat (digits_value ds) / 10 ^ length ds, dropWhile is_digit r))
          else Some (0, s))"

definition parse_integer :: "jsstring \<Rightarrow> (rat \<times> jsstring) option" where
  "parse_integer s =
     (case s of
        [] \<Rightarrow> None
      | c # r \<Rightarrow>
          if c = 48 then Some (0, r)
          else if is_digit c
          then Some (of_nat (digits_value (takeWhile is_digit s)), dropWhile is_digit s)
          else None)"

definition parse_number :: "jsstring \<Rightarrow> (rat \<times> jsstring) option" where
  "parse_number s =
     (let negative = (s \<noteq> [] \<and> hd s = 45);
          s1 = (if negative then tl s else s)
      in case parse_integer s1 of
           None \<Rightarrow> None
         | Some (i, s2) \<Rightarrow>
             (case parse_fraction s2 of
                None \<Rightarrow> None
              | Some (f, s3) \<Rightarrow>
                  (case parse_exponent s3 of
                     None \<Rightarrow> None
                   | Some (e, s4) \<Rightarrow>
                       Some ((if negative then - 1 else 1) * (i + f) * e, s4))))"

text \<open>
  A value, with the white space before it. \<open>parse_elements\<close> reads the rest of an array
  after its first bracket (91) or a comma (44), \<open>parse_members\<close> the rest of an object
  after its first brace (123) or a comma; 58 is the colon. Each returns the value and
  the text after it. The tests \<open>length r < length s\<close> are there for the termination
  proof only; they never fail (\<open>parse_value_unguarded\<close>, \<open>parse_elements_unguarded\<close>,
  \<open>parse_members_unguarded\<close> below).
\<close>

function parse_value :: "jsstring \<Rightarrow> (json \<times> jsstring) option"
  and parse_elements :: "json list \<Rightarrow> jsstring \<Rightarrow> (json \<times> jsstring) option"
  and parse_members :: "(jsstring \<times> json) list \<Rightarrow> jsstring \<Rightarrow> (json \<times> jsstring) option"
where
  "parse_value s =
     (case skip_ws s of
        [] \<Rightarrow> None
      | c # r \<Rightarrow>
          if c = 123 then
            (if skip_ws r \<noteq> [] \<and> hd (skip_ws r) = 125
             then Some (JObject [], tl (skip_ws r))
             else if length r < length s then parse_members [] r else None)
          else if c = 91 then
            (if skip_ws r \<noteq> [] \<and> hd (skip_ws r) = 93
             then Some (JArray [], tl (skip_ws r))
             else if length r < length s then parse_elements [] r else None)
          else if c = 34 then
            (case parse_chars [] r of
               None \<Rightarrow> None
             | Some (chars, r') \<Rightarrow> Some (JString chars, r'))
          else if prefix (str ''true'') (c # r) then Some (JBool True, drop 4 (c # r))
          else if prefix (str ''false'') (c # r) then Some (JBool False, drop 5 (c # r))
          else if prefix (str ''null'') (c # r) then Some (JNull, drop 4 (c # r))
          else
            (case parse_number (c # r) of
               None \<Rightarrow> None
             | Some (n, r') \<Rightarrow> Some (JNumber n, r')))"
| "parse_elements acc s =
     (case parse_value s of
        None \<Rightarrow> None
      | Some (v, r) \<Rightarrow>
          (case skip_ws r of
             [] \<Rightarrow> None
           | c # r' \<Rightarrow>
               if c = 93 then Some (JArray (acc @ [v]), r')
               else if c = 44 \<and> length r' < length s then parse_elements (acc @ [v]) r'
               else None))"
| "parse_members acc s =
     (case skip_ws s of
        [] \<Rightarrow> None
      | q # r \<Rightarrow>
          if q = 34 then
            (case parse_chars [] r of
               None \<Rightarrow> None
             | Some (key, r1) \<Rightarrow>
                 (case skip_ws r1 of
                    [] \<Rightarrow> None
                  | c # r2 \<Rightarrow>
                      if c = 58 \<and> length r2 < length s then
                        (case parse_value r2 of
                           None \<Rightarrow> None
                         | Some (v, r3) \<Rightarrow>
                             (case skip_ws r3 of
                                [] \<Rightarrow> None
                              | d # r4 \<Rightarrow>
                                  if d = 125 then Some (JObject (acc @ [(key, v)]), r4)
                                  else if d = 44 \<and> length r4 < length s
                                  then parse_members (acc @ [(key, v)]) r4
                                  else None))
                      else None))
          else None)"
  by pat_completeness auto
termination
  by (relation "measure (\<lambda>x. case x of
          Inl s \<Rightarrow> 2 * length s
        | Inr (Inl (acc, s)) \<Rightarrow> 2 * length s + 1
        | Inr (Inr (acc, s)) \<Rightarrow> 2 * length s + 1)") auto

definition JSON_parse :: "jsstring \<Rightarrow> json option" where
  "JSON_parse s =
     (case parse_value s of
        None \<Rightarrow> None
      | Some (v, r) \<Rightarrow> if skip_ws r = [] then Some v else None)"

section \<open>The gateway (the improve-resume and analyze routes)\<close>

text \<open>
  What a \<open>throw\<close> can carry: an \<open>Error\<close> object with its message, or any other value.
\<close>

datatype thrown = ErrorObject jsstring | OtherValue

text \<open>
  The surroundings of one request. \<open>session\<close>: did \<open>getServerSession\<close> return a session?
  \<open>generateContent\<close> is the external service, called with the model's name, the prompt
  and the output limit (the temperature is 0.3 in both routes): it throws, or it
  returns a response whose \<open>text\<close> may be undefined. \<open>syntax_error_message\<close> is the
  message of the \<open>SyntaxError\<close> that the platform's \<open>JSON.parse\<close> throws on a text.
\<close>

record generate_request =
  model :: jsstring
  contents :: jsstring
  maxOutputTokens :: nat

record platform =
  session :: bool
  generateContent :: "generate_request \<Rightarrow> thrown + jsstring option"
  syntax_error_message :: "jsstring \<Rightarrow> jsstring"

text \<open>
  The fields the routes read from the request body. Each is a string or is missing
  (\<open>undefined\<close>), as the request types of the data model have them; bodies with fields of
  other JSON types are outside the model.
\<close>

record request_body =
  resumeContent :: "jsstring option"
  targetRole :: "jsstring option"
  targetArea :: "jsstring option"
  action :: "jsstring option"
  command :: "jsstring option"

datatype response = Response (status: nat) (body: json)

text \<open>\<open>!x\<close> for an optional string, and its conversion to a string inside a template.\<close>

fun falsy :: "jsstring option \<Rightarrow> bool" where
  "falsy None = True"
| "falsy (Some s) = (s = [])"

fun toString :: "jsstring option \<Rightarrow> jsstring" where
  "toString None = str ''undefined''"
| "toString (Some s) = s"

fun error_details :: "thrown \<Rightarrow> jsstring \<Rightarrow> jsstring" where
  "error_details (ErrorObject message) fallback = message"
| "error_details OtherValue fallback = fallback"

text \<open>A template literal that spans several lines: its lines, joined by line feeds (10).\<close>

definition template_lines :: "jsstring list \<Rightarrow> jsstring" where
  "template_lines ls = join [10] ls"

text \<open>
  \<open>s.replace(re, '')\<close> with a global pattern removes every match, scanning from the
  left; with a pattern anchored at the start (\<open>^\<close>, no \<open>m\<close> flag) it removes the match at
  the start, if there is one. The match taken is the first the matcher finds.
\<close>

function remove_all :: "bool \<Rightarrow> regex \<Rightarrow> jsstring \<Rightarrow> jsstring" where
  "remove_all i r [] = []"
| "remove_all i r (c # cs) =
     (case matches i r (c # cs) of
        [] \<Rightarrow> c # remove_all i r cs
      | v # _ \<Rightarrow>
          if length v < length (c # cs) then remove_all i r v else c # remove_all i r cs)"
  by pat_completeness auto
termination
  by (relation "measure (\<lambda>(i, r, s). length s)") auto

definition remove_at_start :: "bool \<Rightarrow> regex \<Rightarrow> jsstring \<Rightarrow> jsstring" where
  "remove_at_start i r s = (case matches i r s of [] \<Rightarrow> s | v # _ \<Rightarrow> v)"

text \<open>The pattern \<^verbatim>\<open>/^(text|resume|content):\s*/i\<close>, without its anchor; 58 is the colon.\<close>

definition label_pattern :: regex where
  "label_pattern =
     Seq (Alt (literal (str ''text'')) (Alt (literal (str ''resume'')) (literal (str ''content''))))
         (Seq (One (Lit 58)) (Star Space))"

definition fence :: jsstring where
  "fence = [96, 96, 96]"

definition auto_improve_prompt :: "request_body \<Rightarrow> jsstring" where
  "auto_improve_prompt b = template_lines
     [str ''You are a professional resume expert. Improve this resume for a '' @
        toString (targetRole b) @ str '' position in '' @
        or_default (targetArea b) (str ''general'') @ str '' field.'',
      [],
      str ''INSTRUCTIONS:'',
      str ''1. Enhance the formatting and structure'',
      str ''2. Make the language more professional and impactful'',
      str ''3. Optimize for ATS (Applicant Tracking Systems)'',
      str ''4. Add relevant keywords for the target role'',
      str ''5. Improve bullet points to be more action-oriented'',
      str ''6. Ensure consistent formatting throughout'',
      str ''7. Keep all the original information but present it better'',
      [],
      str ''Original Resume:'',
      toString (resumeContent b),
      [],
      str ''Return the improved resume content directly (no JSON, no explanations, just the improved resume text).'']"

definition chat_command_prompt :: "request_body \<Rightarrow> jsstring" where
  "chat_command_prompt b = template_lines
     [str ''You are a professional resume expert. The user wants you to modify their resume based on this request: '' @
        [34] @ toString (command b) @ [34],
      [],
      str ''Current resume for '' @ toString (targetRole b) @ str '' in '' @
        or_default (targetArea b) (str ''general'') @ str '':'',
      toString (resumeContent b),
      [],
      str ''User'' @ [39] @ str ''s request: '' @ toString (command b),
      [],
      str ''Apply the requested changes to the resume and return the modified resume content directly (no JSON, no explanations, just the updated resume text).'']"

definition analysis_prompt :: "request_body \<Rightarrow> jsstring" where
  "analysis_prompt b = template_lines
     [str ''Analyze this resume for a '' @ toString (targetRole b) @ str '' position in '' @
        or_default (targetArea b) (str ''general'') @ str ''.'',
      [],
      str ''IMPORTANT: Return ONLY a valid JSON object with these exact fields:'',
      str ''- overallScore: number (0-100)'',
      str ''- strengths: array of strings'',
      str ''- improvements: array of objects with {category, issue, suggestion, priority, section}'',
      str ''- missingKeywords: array of strings'',
      str ''- enhancementAreas: array of strings'',
      str ''- contentSuggestions: array of objects with {section, currentText, suggestedText, reason}'',
      [],
      str ''Resume Content:'',
      toString (resumeContent b),
      [],
      str ''Return only the JSON, no other text.'']"

definition error_response :: "nat \<Rightarrow> jsstring \<Rightarrow> response" where
  "error_response code message = Response code (JObject [(str ''error'', JString message)])"

definition failure_response :: "nat \<Rightarrow> jsstring \<Rightarrow> jsstring \<Rightarrow> response" where
  "failure_response code message details =
     Response code (JObject [(str ''error'', JString message), (str ''details'', JString details)])"

text \<open>
  The improve route, \<open>POST\<close> of \<open>improve-resume\<close>. The second argument is what
  \<open>await request.json()\<close> gives: the body, or what it throws. The result is the response
  together with the calls made to the external service, in order. 9989 is the check
  mark U+2705 that opens both status messages.
\<close>

definition POST_improve ::
    "platform \<Rightarrow> thrown + request_body \<Rightarrow> response \<times> generate_request list" where
  "POST_improve p request =
     (if \<not> session p then (error_response 401 (str ''Unauthorized''), [])
      else case request of
        Inl error \<Rightarrow>
          (failure_response 500 (str ''Improvement failed'')
             (error_details error (str ''Unknown error'')), [])
      | Inr b \<Rightarrow>
          if falsy (resumeContent b) \<or> falsy (action b)
          then (error_response 400 (str ''Resume content and action are required''), [])
          else
            (let prompt =
                   (if action b = Some (str ''auto-improve'') then auto_improve_prompt b
                    else if action b = Some (str ''chat-command'') then chat_command_prompt b
                    else []);
                 call = \<lparr> model = str ''gemini-2.0-flash-exp'', contents = prompt,
                          maxOutputTokens = 3000 \<rparr>
             in case generateContent p call of
                  Inl geminiError \<Rightarrow>
                    (failure_response 503 (str ''AI improvement failed'')
                       (error_details geminiError (str ''Gemini service unavailable'')), [call])
                | Inr text \<Rightarrow>
                    if falsy text
                    then (failure_response 503 (str ''AI improvement failed'')
                            (str ''No response text received from Gemini''), [call])
                    else
                      (let improvedContent =
                             trim (remove_at_start True label_pattern
                               (remove_all False (literal fence) (trim (toString text))));
                           message =
                             (if action b = Some (str ''auto-improve'')
                              then [9989] @ str '' Your resume has been automatically improved! Key enhancements: better formatting, professional language, ATS optimization, and keyword enhancement.''
                              else if action b = Some (str ''chat-command'')
                              then [9989] @ str '' Applied your request: '' @ [34] @
                                   toString (command b) @ [34] @
                                   str ''. Your resume has been updated!''
                              else [])
                       in (Response 200 (JObject
                             [(str ''success'', JBool True),
                              (str ''improvedContent'', JString improvedContent),
                              (str ''message'', JString message)]), [call]))))"

text \<open>
  The analyze route, \<open>POST\<close> of \<open>resume/[id]/route.ts\<close>. \<open>clean_response\<close> is the
  value of its variable \<open>cleanedResponse\<close> when \<open>JSON.parse\<close> is called: the trimmed
  text, and when that starts with the fence and \<open>json\<close>, without every \<open>```json\<close> and
  then without every fence.
\<close>

definition clean_response :: "jsstring \<Rightarrow> jsstring" where
  "clean_response analysisText =
     (let cleanedResponse = trim analysisText
      in if prefix (fence @ str ''json'') cleanedResponse
         then remove_all False (literal fence)
                (remove_all False (literal (fence @ str ''json'')) cleanedResponse)
         else cleanedResponse)"

definition POST_analyze ::
    "platform \<Rightarrow> thrown + request_body \<Rightarrow> response \<times> generate_request list" where
  "POST_analyze p request =
     (if \<not> session p then (error_response 401 (str ''Unauthorized''), [])
      else case request of
        Inl error \<Rightarrow>
          (failure_response 500 (str ''Analysis failed'')
             (error_details error (str ''Unknown error'')), [])
      | Inr b \<Rightarrow>
          if falsy (resumeContent b) \<or> falsy (targetRole b)
          then (error_response 400 (str ''Resume content and target role are required''), [])
          else
            (let call = \<lparr> model = str ''gemini-2.0-flash-exp'', contents = analysis_prompt b,
                          maxOutputTokens = 2000 \<rparr>
             in case generateContent p call of
                  Inl geminiError \<Rightarrow>
                    (failure_response 503 (str ''AI analysis failed'')
                       (error_details geminiError (str ''Gemini service unavailable'')), [call])
                | Inr analysisText \<Rightarrow>
                    if falsy analysisText
                    then (failure_response 503 (str ''AI analysis failed'')
                            (str ''No response text received from Gemini''), [call])
                    else
                      (let cleanedResponse = clean_response (toString analysisText)
                       in case JSON_parse cleanedResponse of
                            None \<Rightarrow>
                              (failure_response 503 (str ''AI analysis failed'')
                                 (syntax_error_message p cleanedResponse), [call])
                          | Some analysis \<Rightarrow>
                              (Response 200 (JObject
                                 [(str ''success'', JBool True), (str ''analysis'', analysis)]),
                               [call]))))"

section \<open>The specification's vocabulary\<close>

text \<open>
  The whitespace-delimited tokens of a text: its maximal runs of code units that are
  not white space.
\<close>

function tokens :: "jsstring \<Rightarrow> jsstring list" where
  "tokens [] = []"
| "tokens (c # cs) =
     (if is_space c then tokens cs
      else takeWhile (\<lambda>x. \<not> is_space x) (c # cs) # tokens (dropWhile (\<lambda>x. \<not> is_space x) cs))"
  by pat_completeness auto
termination
  by (relation "measure length") (auto simp: length_dropWhile_le less_Suc_eq_le)

text \<open>
  The quantification patterns in the specification's words: a percentage figure is a
  number followed by a percent sign, a plus-suffixed number a number followed by a plus
  sign, a dollar amount a dollar sign followed by a number, and a word is matched
  without regard to case. A text contains a match when one of its substrings is one.
\<close>

definition number :: "jsstring \<Rightarrow> bool" where
  "number ds \<longleftrightarrow> ds \<noteq> [] \<and> list_all is_digit ds"

definition percentage_figure :: "jsstring \<Rightarrow> bool" where
  "percentage_figure m \<longleftrightarrow> list_ex (\<lambda>ds. number ds \<and> m = ds @ str ''%'') (prefixes m)"

definition plus_suffixed_number :: "jsstring \<Rightarrow> bool" where
  "plus_suffixed_number m \<longleftrightarrow> list_ex (\<lambda>ds. number ds \<and> m = ds @ str ''+'') (prefixes m)"

definition dollar_amount :: "jsstring \<Rightarrow> bool" where
  "dollar_amount m \<longleftrightarrow> list_ex (\<lambda>ds. number ds \<and> m = str ''$'' @ ds) (suffixes m)"

definition the_word :: "string \<Rightarrow> jsstring \<Rightarrow> bool" where
  "the_word w m \<longleftrightarrow> toLowerCase m = str w"

definition quantification :: "jsstring \<Rightarrow> bool" where
  "quantification m \<longleftrightarrow>
     percentage_figure m \<or> plus_suffixed_number m \<or> dollar_amount m \<or>
     the_word ''increased'' m \<or> the_word ''improved'' m \<or> the_word ''reduced'' m"

definition substrings :: "jsstring \<Rightarrow> jsstring list" where
  "substrings s = concat (map prefixes (suffixes s))"

definition contains_quantification :: "jsstring \<Rightarrow> bool" where
  "contains_quantification s \<longleftrightarrow> list_ex quantification (substrings s)"

section \<open>Sample requests and services\<close>

text \<open>
  A request for a nurse's resume; a service that answers in prose, one whose call throws,
  and one that answers with an analysis wrapped in a \<open>json\<close> code fence.
\<close>

definition sample_request :: request_body where
  "sample_request =
     \<lparr> resumeContent = Some (str ''Nurse.''), targetRole = Some (str ''nurse''),
       targetArea = None, action = None, command = None \<rparr>"

definition chatty_service :: platform where
  "chatty_service =
     \<lparr> session = True,
       generateContent = (\<lambda>call. Inr (Some (str ''Sorry, I cannot help.''))),
       syntax_error_message = (\<lambda>text. str ''Unexpected token'') \<rparr>"

definition failing_service :: platform where
  "failing_service =
     \<lparr> session = True,
       generateContent = (\<lambda>call. Inl (ErrorObject (str ''Unexpected token''))),
       syntax_error_message = (\<lambda>text. str ''Unexpected token'') \<rparr>"

definition sample_analysis_text :: jsstring where
  \<open>sample_analysis_text = str
     ''{"overallScore": 80, "strengths": [], "improvements": [], "missingKeywords": [], "enhancementAreas": [], "contentSuggestions": []}''\<close>

definition fenced_service :: platform where
  "fenced_service =
     \<lparr> session = True,
       generateContent =
         (\<lambda>call. Inr (Some (fence @ str ''json'' @ [10] @ sample_analysis_text @ [10] @ fence))),
       syntax_error_message = (\<lambda>text. str ''Unexpected token'') \<rparr>"

text \<open>
  What the pattern \<open>quantified_pattern\<close> of the engine matches at the start of a text,
  read off the pattern: the code units that a match consumes.
\<close>

definition quantified_match :: "jsstring \<Rightarrow> bool" where
  "quantified_match m \<longleftrightarrow>
     (\<exists>ds. m = ds @ [37] \<and> ds \<noteq> [] \<and> list_all is_digit ds) \<or>
     (\<exists>ds. m = ds @ [43] \<and> ds \<noteq> [] \<and> list_all is_digit ds) \<or>
     (\<exists>ds. m = 36 # ds \<and> ds \<noteq> [] \<and> list_all is_digit ds) \<or>
     list_all2 (\<lambda>p c. cls_match True (Lit p) c) (str ''increased'') m \<or>
     list_all2 (\<lambda>p c. cls_match True (Lit p) c) (str ''improved'') m \<or>
     list_all2 (\<lambda>p c. cls_match True (Lit p) c) (str ''reduced'') m"

section \<open>Facts about strings\<close>

lemma str_eq_iff [simp]: "str a = str b \<longleftrightarrow> a = b"
  unfolding str_def by (simp add: inj_def)

lemma str_Nil [simp]: "str [] = []" "str s = [] \<longleftrightarrow> s = []" "[] = str s \<longleftrightarrow> s = []"
  by (auto simp: str_def)

lemma toLowerCase_Nil [simp]: "toLowerCase s = [] \<longleftrightarrow> s = []"
  by (simp add: toLowerCase_def)

lemma lower_unit_not_capital: "\<not> (65 \<le> lower_unit c \<and> lower_unit c \<le> 90)"
  by (simp add: lower_unit_def)

lemma toLowerCase_no_capital:
  assumes "65 \<le> c" "c \<le> 90"
  shows "c \<notin> set (toLowerCase s)"
proof
  assume "c \<in> set (toLowerCase s)"
  then obtain d where "c = lower_unit d" by (auto simp: toLowerCase_def)
  with assms lower_unit_not_capital [of d] show False by simp
qed

section \<open>Facts about the role table\<close>

lemma getRole_cases:
  "getRoleSpecificKeywords role area =
     (case map_of keywordMap (toLowerCase role) of
        Some ks \<Rightarrow> Array ks
      | None \<Rightarrow>
          if toLowerCase role = str ''__proto__'' then ObjectPrototype
          else if toLowerCase role \<in> set object_prototype_functions
          then Function (toLowerCase role)
          else Array (map str [''Leadership'', ''Problem Solving'', ''Communication'', ''Teamwork'',
                 ''Project Management'']))"
  by (simp add: getRoleSpecificKeywords_def keywordMap_get_def js_or_def keywordMap_def
      object_prototype_functions_def split: option.splits)

lemma keywordMap_nonempty:
  "map_of keywordMap k = Some ks \<Longrightarrow> ks \<noteq> [] \<and> [] \<notin> set ks"
  by (auto simp: keywordMap_def split: if_splits)

lemma keywordMap_constructor: "map_of keywordMap (str ''constructor'') = None"
  by (simp add: keywordMap_def)

lemma keywordMap_proto: "map_of keywordMap (str ''__proto__'') = None"
  by (simp add: keywordMap_def)

lemma constructor_inherited: "str ''constructor'' \<in> set object_prototype_functions"
  by (simp add: object_prototype_functions_def)

lemma lower_inherited_function:
  "toLowerCase role \<in> set object_prototype_functions \<longleftrightarrow> toLowerCase role = str ''constructor''"
proof
  assume a: "toLowerCase role \<in> set object_prototype_functions"
  have O: "79 \<notin> set (toLowerCase role)" and P: "80 \<notin> set (toLowerCase role)"
    and E: "69 \<notin> set (toLowerCase role)" and L: "76 \<notin> set (toLowerCase role)"
    and S: "83 \<notin> set (toLowerCase role)" and G: "71 \<notin> set (toLowerCase role)"
    by (simp_all add: toLowerCase_no_capital)
  have m: "79 \<in> set (str ''hasOwnProperty'')" "80 \<in> set (str ''isPrototypeOf'')"
    "69 \<in> set (str ''propertyIsEnumerable'')" "76 \<in> set (str ''toLocaleString'')"
    "83 \<in> set (str ''toString'')" "79 \<in> set (str ''valueOf'')"
    "71 \<in> set (str ''__defineGetter__'')" "83 \<in> set (str ''__defineSetter__'')"
    "71 \<in> set (str ''__lookupGetter__'')" "83 \<in> set (str ''__lookupSetter__'')"
    by (simp_all add: str_def)
  from a consider "toLowerCase role = str ''constructor''"
    | "toLowerCase role = str ''hasOwnProperty''" | "toLowerCase role = str ''isPrototypeOf''"
    | "toLowerCase role = str ''propertyIsEnumerable''" | "toLowerCase role = str ''toLocaleString''"
    | "toLowerCase role = str ''toString''" | "toLowerCase role = str ''valueOf''"
    | "toLowerCase role = str ''__defineGetter__''" | "toLowerCase role = str ''__defineSetter__''"
    | "toLowerCase role = str ''__lookupGetter__''" | "toLowerCase role = str ''__lookupSetter__''"
    unfolding object_prototype_functions_def by auto
  then show "toLowerCase role = str ''constructor''"
    using O P E L S G m by cases metis+
next
  assume "toLowerCase role = str ''constructor''"
  then show "toLowerCase role \<in> set object_prototype_functions"
    by (simp add: constructor_inherited)
qed

lemma getRole_Array_iff:
  "(\<exists>ks. getRoleSpecificKeywords role area = Array ks) \<longleftrightarrow>
   toLowerCase role \<noteq> str ''constructor'' \<and> toLowerCase role \<noteq> str ''__proto__''"
  by (auto simp: getRole_cases lower_inherited_function keywordMap_constructor keywordMap_proto
      split: option.splits)

lemma getRole_Array_nonempty:
  "getRoleSpecificKeywords role area = Array ks \<Longrightarrow> ks \<noteq> [] \<and> [] \<notin> set ks"
  by (auto simp: getRole_cases split: option.splits if_splits dest: keywordMap_nonempty)

lemma lower_constructor: "toLowerCase (str ''constructor'') = str ''constructor''"
  by (simp add: toLowerCase_def str_def lower_unit_def)

lemma getRole_constructor:
  "toLowerCase role = str ''constructor'' \<Longrightarrow>
   getRoleSpecificKeywords role area = Function (str ''constructor'')"
  by (simp add: getRole_cases keywordMap_constructor constructor_inherited)

section \<open>Facts about the engine\<close>

lemma section_ids:
  "map id' (getSectionSpecificSuggestions s content role) =
     (if (s = str ''summary'' \<or> s = str ''professional-summary'') \<and> length content < 100
      then [str ''summary-expand''] else []) @
     (if (s = str ''skills'' \<or> s = str ''technical-skills'') \<and>
         \<not> js_includes content [8226] \<and> \<not> js_includes content (str ''-'')
      then [str ''skills-format''] else [])"
  by (simp add: getSectionSpecificSuggestions_def)

lemma engine_Array:
  assumes "getRoleSpecificKeywords role area = Array ks"
  shows "\<exists>out. generateRealTimeSuggestions content role area sec = Inr out \<and>
     map id' out =
       (if length (split_ws content) < 200 then [str ''word-count''] else []) @
       (if test True quantified_pattern content then [] else [str ''quantify'']) @
       (if test True action_verb_pattern content then [] else [str ''action-verbs'']) @
       (if filter (\<lambda>keyword. \<not> js_includes (toLowerCase content) (toLowerCase keyword)) ks = []
        then [] else [str ''keywords'']) @
       (case sec of None \<Rightarrow> []
        | Some s \<Rightarrow> map id' (getSectionSpecificSuggestions s content role))"
  unfolding generateRealTimeSuggestions_def Let_def assms jsvalue.case
  by (cases sec) (simp_all add: getSectionSpecificSuggestions_def)

lemma engine_not_Array:
  assumes "\<not> (\<exists>ks. getRoleSpecificKeywords role area = Array ks)"
  shows "generateRealTimeSuggestions content role area sec = Inl TypeError"
proof (cases "getRoleSpecificKeywords role area")
  case (Array ks)
  with assms show ?thesis by blast
qed (simp_all add: generateRealTimeSuggestions_def Let_def)

lemma engine_Inr_Array:
  assumes "generateRealTimeSuggestions content role area sec = Inr out"
  shows "\<exists>ks. getRoleSpecificKeywords role area = Array ks"
proof (rule ccontr)
  assume "\<not> ?thesis"
  then have "generateRealTimeSuggestions content role area sec = Inl TypeError"
    by (rule engine_not_Array)
  with assms show False by simp
qed

lemma engine_returns_iff:
  "(\<exists>out. generateRealTimeSuggestions content role area sec = Inr out) \<longleftrightarrow>
   toLowerCase role \<noteq> str ''constructor'' \<and> toLowerCase role \<noteq> str ''__proto__''"
  using engine_Array [of role area _ content sec] engine_Inr_Array [of content role area sec]
    getRole_Array_iff [of role area]
  by blast

text \<open>
  C1: the suggestion engine is meant to return a suggestion list for every input. For
  the role \<open>constructor\<close> it does not: the lookup \<open>keywordMap[roleKey]\<close> finds the
  inherited property \<open>Object.prototype.constructor\<close>, a function, which is truthy, so
  the default profile is not taken and \<open>roleKeywords.filter\<close> is not callable. The promise
  of the engine is rejected with a \<open>TypeError\<close>, whatever the text, area and section.
  (\<open>engine_returns_iff\<close>: the engine returns a list exactly for the roles whose
  lower-case form is neither \<open>constructor\<close> nor \<open>__proto__\<close>.)
\<close>

theorem engine_throws_on_constructor:
  "generateRealTimeSuggestions content (str ''constructor'') area sec = Inl TypeError"
  by (rule engine_not_Array) (simp add: getRole_constructor lower_constructor)


section \<open>Facts about splitting\<close>

lemma split_ws_from_word:
  "\<forall>x\<in>set w. \<not> is_space x \<Longrightarrow> split_ws_from p (w @ s) = split_ws_from (p @ w) s"
  by (induction w arbitrary: p) auto

lemma is_space_10: "is_space 10"
  by (simp add: is_space_def)

lemma dropWhile_lines:
  assumes "\<forall>x\<in>set w. \<not> is_space x" "w \<noteq> []"
  shows "dropWhile is_space (concat (replicate n (w @ [10]))) = concat (replicate n (w @ [10]))"
proof (cases n)
  case 0
  then show ?thesis by simp
next
  case (Suc m)
  from assms obtain c w' where "w = c # w'" "\<not> is_space c" by (cases w) auto
  with Suc show ?thesis by simp
qed

lemma split_ws_lines:
  assumes "\<forall>x\<in>set w. \<not> is_space x" "w \<noteq> []"
  shows "split_ws (concat (replicate n (w @ [10]))) = replicate n w @ [[]]"
proof (induction n)
  case 0
  show ?case by (simp add: split_ws_def)
next
  case (Suc n)
  let ?rest = "concat (replicate n (w @ [10]))"
  have "split_ws (concat (replicate (Suc n) (w @ [10]))) = split_ws_from [] (w @ 10 # ?rest)"
    by (simp add: split_ws_def)
  also have "\<dots> = split_ws_from w (10 # ?rest)"
    using assms(1) by (simp add: split_ws_from_word)
  also have "\<dots> = w # split_ws_from [] (dropWhile is_space ?rest)"
    by (simp add: is_space_10)
  also have "\<dots> = w # split_ws ?rest"
    using assms by (simp add: dropWhile_lines split_ws_def)
  finally show ?case using Suc.IH by simp
qed

lemma tokens_word:
  assumes "\<forall>x\<in>set w. \<not> is_space x" "w \<noteq> []"
  shows "tokens (w @ 10 # s) = w # tokens s"
proof -
  from assms obtain c w' where w: "w = c # w'" and c: "\<not> is_space c" by (cases w) auto
  have t: "takeWhile (\<lambda>x. \<not> is_space x) (w @ 10 # s) = w"
    using assms(1) by (simp add: is_space_10)
  have "dropWhile (\<lambda>x. \<not> is_space x) (w' @ 10 # s) = 10 # s"
    using assms(1) w by (simp add: is_space_10)
  then have "tokens (w @ 10 # s) = w # tokens (10 # s)"
    using t c w by simp
  then show ?thesis by (simp add: is_space_10)
qed

lemma tokens_lines:
  assumes "\<forall>x\<in>set w. \<not> is_space x" "w \<noteq> []"
  shows "tokens (concat (replicate n (w @ [10]))) = replicate n w"
  using assms by (induction n) (simp_all add: tokens_word)

lemma word_no_space: "\<forall>x\<in>set (str ''word''). \<not> is_space x"
  by (simp add: str_def is_space_def)

lemma lower_software_engineer:
  "toLowerCase (str ''software engineer'') = str ''software engineer''"
  by (simp add: toLowerCase_def str_def lower_unit_def)

lemma software_engineer_profile:
  "getRoleSpecificKeywords (str ''software engineer'') area =
     Array (map str [''JavaScript'', ''Python'', ''React'', ''Node.js'', ''API'', ''Git'', ''Agile''])"
  by (simp add: getRole_cases lower_software_engineer keywordMap_def)

text \<open>
  C2: a text with fewer than 200 whitespace-delimited tokens is meant to get the
  \<open>word-count\<close> suggestion. The engine's \<open>wordCount\<close> is the number of pieces of
  \<open>content.split(/\s+/)\<close>, which counts the empty piece after a trailing line feed as a
  word. For the text of 199 lines, each the word \<open>word\<close> followed by a line feed, the
  tokens are 199 and \<open>wordCount\<close> is 200, so the engine returns no \<open>word-count\<close>
  suggestion. (What the engine does on every text is \<open>word_count_suggestion_count\<close>;
  \<open>pieces_tokens\<close> relates pieces and tokens, and \<open>word_count_on_trimmed_text\<close> shows the
  claim for the texts without leading and trailing white space.)
\<close>

theorem word_count_counts_trailing_piece:
  "length (tokens (concat (replicate 199 (str ''word'' @ [10])))) = 199 \<and>
   length (split_ws (concat (replicate 199 (str ''word'' @ [10])))) = 200 \<and>
   (\<exists>out. generateRealTimeSuggestions (concat (replicate 199 (str ''word'' @ [10])))
             (str ''software engineer'') [] None = Inr out \<and>
          str ''word-count'' \<notin> set (map id' out))"
proof -
  let ?text = "concat (replicate 199 (str ''word'' @ [10]))"
  have t: "length (tokens ?text) = 199"
    by (simp add: tokens_lines word_no_space)
  have s: "length (split_ws ?text) = 200"
    by (simp add: split_ws_lines word_no_space)
  obtain out where o: "generateRealTimeSuggestions ?text (str ''software engineer'') [] None = Inr out"
    and ids: "map id' out =
       (if length (split_ws ?text) < 200 then [str ''word-count''] else []) @
       (if test True quantified_pattern ?text then [] else [str ''quantify'']) @
       (if test True action_verb_pattern ?text then [] else [str ''action-verbs'']) @
       (if filter (\<lambda>keyword. \<not> js_includes (toLowerCase ?text) (toLowerCase keyword))
             (map str [''JavaScript'', ''Python'', ''React'', ''Node.js'', ''API'', ''Git'', ''Agile'']) = []
        then [] else [str ''keywords''])"
    using engine_Array [OF software_engineer_profile, where content = ?text and sec = None]
    by auto
  have "str ''word-count'' \<notin> set (map id' out)"
    unfolding ids s by simp
  with t s o show ?thesis by blast
qed


section \<open>The suggestions of the engine\<close>

lemma count_by_id:
  "length (filter (\<lambda>x. f x = a) xs) = length (filter (\<lambda>y. y = a) (map f xs))"
  by (induction xs) simp_all

lemma engine_ids:
  assumes "generateRealTimeSuggestions content role area sec = Inr out"
  obtains ks where "getRoleSpecificKeywords role area = Array ks"
    and "map id' out =
       (if length (split_ws content) < 200 then [str ''word-count''] else []) @
       (if test True quantified_pattern content then [] else [str ''quantify'']) @
       (if test True action_verb_pattern content then [] else [str ''action-verbs'']) @
       (if filter (\<lambda>keyword. \<not> js_includes (toLowerCase content) (toLowerCase keyword)) ks = []
        then [] else [str ''keywords'']) @
       (case sec of None \<Rightarrow> []
        | Some s \<Rightarrow> map id' (getSectionSpecificSuggestions s content role))"
proof -
  from assms obtain ks where ks: "getRoleSpecificKeywords role area = Array ks"
    using engine_Inr_Array by blast
  from engine_Array [OF ks, of content sec] assms that [OF ks] show thesis by auto
qed

lemma in_optional: "x \<in> set (if c then [r] else []) \<longleftrightarrow> c \<and> x = r"
  by auto

lemma engine_suggestion_cases:
  assumes "generateRealTimeSuggestions content role area sec = Inr out" and "x \<in> set out"
  shows "id' x = str ''word-count'' \<or> id' x = str ''quantify'' \<or> id' x = str ''action-verbs'' \<or>
         id' x = str ''keywords'' \<or>
         (\<exists>s. sec = Some s \<and> x \<in> set (getSectionSpecificSuggestions s content role))"
proof -
  from assms(1) obtain ks where ks: "getRoleSpecificKeywords role area = Array ks"
    using engine_Inr_Array by blast
  show ?thesis
    using assms unfolding generateRealTimeSuggestions_def Let_def ks jsvalue.case
    by (cases sec) (auto simp: in_optional)
qed

lemma summary_expand_fields:
  assumes "x \<in> set (getSectionSpecificSuggestions s content role)"
    and "id' x = str ''summary-expand''"
  shows "type' x = Content \<and> priority x = High \<and>
         suggestion x = str ''Write a compelling summary mentioning your '' @ role @
           str '' experience and key accomplishments.''"
  using assms by (auto simp: getSectionSpecificSuggestions_def split: if_splits)

text \<open>
  Whenever the engine returns, its list holds a suggestion with the id
  \<open>summary-expand\<close> if and only if the current section is \<open>summary\<close> or
  \<open>professional-summary\<close> and the text has fewer than 100 code units; and every such
  suggestion has the type content and the priority high, and its text names the target
  role.
\<close>

lemma summary_expand_of_result:
  assumes "generateRealTimeSuggestions content role area sec = Inr out"
  shows "((\<exists>x\<in>set out. id' x = str ''summary-expand'') \<longleftrightarrow>
            (sec = Some (str ''summary'') \<or> sec = Some (str ''professional-summary'')) \<and>
            length content < 100) \<and>
         (\<forall>x\<in>set out. id' x = str ''summary-expand'' \<longrightarrow>
            type' x = Content \<and> priority x = High \<and>
            suggestion x = str ''Write a compelling summary mentioning your '' @ role @
              str '' experience and key accomplishments.'')"
proof
  from assms obtain ks where
    ids: "map id' out =
       (if length (split_ws content) < 200 then [str ''word-count''] else []) @
       (if test True quantified_pattern content then [] else [str ''quantify'']) @
       (if test True action_verb_pattern content then [] else [str ''action-verbs'']) @
       (if filter (\<lambda>keyword. \<not> js_includes (toLowerCase content) (toLowerCase keyword)) ks = []
        then [] else [str ''keywords'']) @
       (case sec of None \<Rightarrow> []
        | Some s \<Rightarrow> map id' (getSectionSpecificSuggestions s content role))"
    by (rule engine_ids)
  have "(\<exists>x\<in>set out. id' x = str ''summary-expand'') \<longleftrightarrow>
        str ''summary-expand'' \<in> set (map id' out)"
    by (simp add: image_iff eq_commute)
  also have "\<dots> \<longleftrightarrow> (sec = Some (str ''summary'') \<or> sec = Some (str ''professional-summary'')) \<and>
            length content < 100"
    unfolding ids by (cases sec) (auto simp: section_ids)
  finally show "(\<exists>x\<in>set out. id' x = str ''summary-expand'') \<longleftrightarrow>
            (sec = Some (str ''summary'') \<or> sec = Some (str ''professional-summary'')) \<and>
            length content < 100" .
next
  show "\<forall>x\<in>set out. id' x = str ''summary-expand'' \<longrightarrow>
            type' x = Content \<and> priority x = High \<and>
            suggestion x = str ''Write a compelling summary mentioning your '' @ role @
              str '' experience and key accomplishments.''"
  proof (intro ballI impI)
    fix x assume x: "x \<in> set out" and i: "id' x = str ''summary-expand''"
    from engine_suggestion_cases [OF assms x] i
    obtain s where "x \<in> set (getSectionSpecificSuggestions s content role)" by auto
    then show "type' x = Content \<and> priority x = High \<and>
            suggestion x = str ''Write a compelling summary mentioning your '' @ role @
              str '' experience and key accomplishments.''"
      using i by (rule summary_expand_fields)
  qed
qed

lemma str_append: "str (a @ b) = str a @ str b"
  by (simp add: str_def)

lemma lower_nurse: "toLowerCase (str ''nurse'') = str ''nurse''"
  by (simp add: toLowerCase_def str_def lower_unit_def)

lemma nurse_profile: "\<exists>ks. getRoleSpecificKeywords (str ''nurse'') area = Array ks"
  by (simp add: getRole_Array_iff lower_nurse)

text \<open>
  The engine returns for every role whose lower-case form is neither \<open>constructor\<close> nor
  \<open>__proto__\<close>, and then the list it returns is as C5 says.
\<close>

lemma summary_expand_unless_thrown:
  assumes "toLowerCase role \<noteq> str ''constructor''" and "toLowerCase role \<noteq> str ''__proto__''"
  shows "\<exists>out. generateRealTimeSuggestions content role area sec = Inr out \<and>
         ((\<exists>x\<in>set out. id' x = str ''summary-expand'') \<longleftrightarrow>
            (sec = Some (str ''summary'') \<or> sec = Some (str ''professional-summary'')) \<and>
            length content < 100) \<and>
         (\<forall>x\<in>set out. id' x = str ''summary-expand'' \<longrightarrow>
            type' x = Content \<and> priority x = High \<and>
            suggestion x = str ''Write a compelling summary mentioning your '' @ role @
              str '' experience and key accomplishments.'')"
proof -
  from assms obtain out where o: "generateRealTimeSuggestions content role area sec = Inr out"
    using engine_returns_iff [of content role area sec] by blast
  from summary_expand_of_result [OF o] o show ?thesis by blast
qed

lemma summary_expand_example:
  "\<exists>out. generateRealTimeSuggestions (str ''Nurse.'') (str ''nurse'') [] (Some (str ''summary'')) =
            Inr out \<and>
         (\<exists>x\<in>set out. id' x = str ''summary-expand'' \<and> type' x = Content \<and> priority x = High \<and>
            suggestion x =
              str ''Write a compelling summary mentioning your nurse experience and key accomplishments.'')"
proof -
  obtain ks where "getRoleSpecificKeywords (str ''nurse'') [] = Array ks"
    using nurse_profile by blast
  then obtain out where o:
    "generateRealTimeSuggestions (str ''Nurse.'') (str ''nurse'') [] (Some (str ''summary'')) = Inr out"
    using engine_Array by blast
  have l: "length (str ''Nurse.'') < 100" by (simp add: str_def)
  from summary_expand_of_result [OF o] l obtain x where "x \<in> set out" "id' x = str ''summary-expand''"
    "type' x = Content" "priority x = High"
    "suggestion x = str ''Write a compelling summary mentioning your '' @ str ''nurse'' @
              str '' experience and key accomplishments.''"
    by auto
  then have "\<exists>x\<in>set out. id' x = str ''summary-expand'' \<and> type' x = Content \<and> priority x = High \<and>
            suggestion x =
              str ''Write a compelling summary mentioning your nurse experience and key accomplishments.''"
    by (auto simp: str_append [symmetric])
  with o show ?thesis by blast
qed

text \<open>
  C5: in a summary section a text shorter than 100 code units is meant to get the
  \<open>summary-expand\<close> suggestion, whatever the role. For the text \<open>Nurse.\<close> in the section
  \<open>summary\<close> the engine gives it for the role \<open>nurse\<close>, but for the role \<open>constructor\<close>
  it throws at \<open>roleKeywords.filter\<close>, before the section is looked at, and gives no
  suggestion at all. (For every other role the claim holds: \<open>summary_expand_unless_thrown\<close>.)
\<close>

theorem summary_expand_lost_on_constructor:
  "length (str ''Nurse.'') < 100 \<and>
   generateRealTimeSuggestions (str ''Nurse.'') (str ''constructor'') [] (Some (str ''summary'')) =
     Inl TypeError \<and>
   (\<exists>out. generateRealTimeSuggestions (str ''Nurse.'') (str ''nurse'') [] (Some (str ''summary'')) =
            Inr out \<and>
          str ''summary-expand'' \<in> set (map id' out))"
proof -
  have "\<not> (\<exists>ks. getRoleSpecificKeywords (str ''constructor'') [] = Array ks)"
    by (simp add: getRole_constructor lower_constructor)
  then have "generateRealTimeSuggestions (str ''Nurse.'') (str ''constructor'') []
      (Some (str ''summary'')) = Inl TypeError"
    by (rule engine_not_Array)
  moreover have "length (str ''Nurse.'') < 100" by (simp add: str_def)
  moreover from summary_expand_example obtain out x where
    "generateRealTimeSuggestions (str ''Nurse.'') (str ''nurse'') [] (Some (str ''summary'')) = Inr out"
    "x \<in> set out" "id' x = str ''summary-expand''"
    by blast
  then have "\<exists>out. generateRealTimeSuggestions (str ''Nurse.'') (str ''nurse'') []
      (Some (str ''summary'')) = Inr out \<and> str ''summary-expand'' \<in> set (map id' out)"
    by force
  ultimately show ?thesis by blast
qed

lemma split_ws_empty: "split_ws [] = [[]]"
  by (simp add: split_ws_def)

lemma quantified_empty: "matches True quantified_pattern [] = []"
  by (simp add: quantified_pattern_def str_def)

lemma action_verb_empty: "matches True action_verb_pattern [] = []"
  by (simp add: action_verb_pattern_def str_def)

lemma missing_all_of_empty:
  assumes "[] \<notin> set ks"
  shows "filter (\<lambda>keyword. \<not> js_includes (toLowerCase []) (toLowerCase keyword)) ks = ks"
  using assms by (induction ks) (auto simp: toLowerCase_def)

lemma section_ids_empty:
  "(case sec of None \<Rightarrow> [] | Some s \<Rightarrow> map id' (getSectionSpecificSuggestions s [] role)) =
     (if sec = Some (str ''summary'') \<or> sec = Some (str ''professional-summary'')
      then [str ''summary-expand'']
      else if sec = Some (str ''skills'') \<or> sec = Some (str ''technical-skills'')
      then [str ''skills-format'']
      else [])"
  by (cases sec) (auto simp: section_ids)

lemma analyzeContent_empty: "analyzeContent suggestions [] role area currentSection = suggestions"
  by (simp add: analyzeContent_def)

text \<open>
  C6, as the engine has it: on the empty text the engine, whenever it returns, gives the
  four suggestions \<open>word-count\<close> (expand content), \<open>quantify\<close>, \<open>action-verbs\<close> and
  \<open>keywords\<close>, in this order, followed by \<open>summary-expand\<close> in a summary section or by
  \<open>skills-format\<close> in a skills section: four or five suggestions. The panel's callback
  does not call the engine on an empty text and leaves the list it shows as it is.
\<close>

theorem empty_text_suggestions:
  assumes "generateRealTimeSuggestions [] role area sec = Inr out"
  shows "map id' out =
           map str [''word-count'', ''quantify'', ''action-verbs'', ''keywords''] @
           (if sec = Some (str ''summary'') \<or> sec = Some (str ''professional-summary'')
            then [str ''summary-expand'']
            else if sec = Some (str ''skills'') \<or> sec = Some (str ''technical-skills'')
            then [str ''skills-format'']
            else []) \<and>
         analyzeContent suggestions [] role area sec = suggestions"
proof -
  from assms obtain ks where ks: "getRoleSpecificKeywords role area = Array ks"
    and ids: "map id' out =
       (if length (split_ws []) < 200 then [str ''word-count''] else []) @
       (if test True quantified_pattern [] then [] else [str ''quantify'']) @
       (if test True action_verb_pattern [] then [] else [str ''action-verbs'']) @
       (if filter (\<lambda>keyword. \<not> js_includes (toLowerCase []) (toLowerCase keyword)) ks = []
        then [] else [str ''keywords'']) @
       (case sec of None \<Rightarrow> []
        | Some s \<Rightarrow> map id' (getSectionSpecificSuggestions s [] role))"
    by (rule engine_ids)
  from getRole_Array_nonempty [OF ks] have m:
    "filter (\<lambda>keyword. \<not> js_includes (toLowerCase []) (toLowerCase keyword)) ks \<noteq> []"
    by (simp add: missing_all_of_empty)
  show ?thesis
    unfolding ids section_ids_empty
    using m by (simp add: split_ws_empty quantified_empty action_verb_empty analyzeContent_empty)
qed

theorem empty_text_suggestions_witness:
  "\<exists>out. generateRealTimeSuggestions [] (str ''nurse'') [] (Some (str ''skills'')) = Inr out \<and>
     map id' out =
       map str [''word-count'', ''quantify'', ''action-verbs'', ''keywords'', ''skills-format'']"
proof -
  obtain ks where "getRoleSpecificKeywords (str ''nurse'') [] = Array ks"
    using nurse_profile by blast
  then obtain out where o:
    "generateRealTimeSuggestions [] (str ''nurse'') [] (Some (str ''skills'')) = Inr out"
    using engine_Array by blast
  from empty_text_suggestions [OF o] have
    "map id' out =
       map str [''word-count'', ''quantify'', ''action-verbs'', ''keywords'', ''skills-format'']"
    by simp
  with o show ?thesis by blast
qed

text \<open>
  C6 as stated (the empty text yields at most one suggestion) fails: for the role
  \<open>software engineer\<close> and no section the engine returns four suggestions.
\<close>

theorem empty_text_four_suggestions:
  "map_sum id (map id') (generateRealTimeSuggestions [] (str ''software engineer'') [] None) =
     Inr (map str [''word-count'', ''quantify'', ''action-verbs'', ''keywords''])"
proof -
  obtain out where o:
    "generateRealTimeSuggestions [] (str ''software engineer'') [] None = Inr out"
    and ids: "map id' out =
       (if length (split_ws []) < 200 then [str ''word-count''] else []) @
       (if test True quantified_pattern [] then [] else [str ''quantify'']) @
       (if test True action_verb_pattern [] then [] else [str ''action-verbs'']) @
       (if filter (\<lambda>keyword. \<not> js_includes (toLowerCase []) (toLowerCase keyword))
             (map str [''JavaScript'', ''Python'', ''React'', ''Node.js'', ''API'', ''Git'', ''Agile'']) = []
        then [] else [str ''keywords''])"
    using engine_Array [OF software_engineer_profile, where content = "[]" and sec = None]
    by auto
  have "map id' out = map str [''word-count'', ''quantify'', ''action-verbs'', ''keywords'']"
    unfolding ids
    by (simp add: split_ws_empty quantified_empty action_verb_empty toLowerCase_def)
  with o show ?thesis by simp
qed


section \<open>The keyword check\<close>

lemma lower_Constructor: "toLowerCase (str ''Constructor'') = str ''constructor''"
  by (simp add: toLowerCase_def str_def lower_unit_def)

lemma unknown_role_default:
  assumes "map_of keywordMap (toLowerCase role) = None"
    and "toLowerCase role \<noteq> str ''constructor''" and "toLowerCase role \<noteq> str ''__proto__''"
  shows "getRoleSpecificKeywords role area =
     Array (map str [''Leadership'', ''Problem Solving'', ''Communication'', ''Teamwork'',
                     ''Project Management''])"
  using assms by (simp add: getRole_cases lower_inherited_function)

lemma known_role_profile:
  assumes "map_of keywordMap (toLowerCase role) = Some ks"
  shows "getRoleSpecificKeywords role area = Array ks"
  using assms by (simp add: getRole_cases)

lemma keywords_suggestion:
  assumes "generateRealTimeSuggestions content role area sec = Inr out"
    and "getRoleSpecificKeywords role area = Array ks"
    and "missing = filter (\<lambda>keyword. \<not> js_includes (toLowerCase content) (toLowerCase keyword)) ks"
    and "missing \<noteq> []"
  shows "\<exists>x\<in>set out. id' x = str ''keywords'' \<and> type' x = Keyword \<and> priority x = High \<and>
           suggestion x = str ''Consider adding: '' @ join (str '', '') (take 5 missing)"
  using assms unfolding generateRealTimeSuggestions_def Let_def jsvalue.case
  by (cases sec) (force simp: in_optional)+

lemma keywords_count:
  assumes "generateRealTimeSuggestions content role area sec = Inr out"
    and "getRoleSpecificKeywords role area = Array ks"
  shows "length (filter (\<lambda>x. id' x = str ''keywords'') out) =
     (if filter (\<lambda>keyword. \<not> js_includes (toLowerCase content) (toLowerCase keyword)) ks = []
      then 0 else 1)"
proof -
  from assms(1) obtain ks' where "getRoleSpecificKeywords role area = Array ks'"
    and ids: "map id' out =
       (if length (split_ws content) < 200 then [str ''word-count''] else []) @
       (if test True quantified_pattern content then [] else [str ''quantify'']) @
       (if test True action_verb_pattern content then [] else [str ''action-verbs'']) @
       (if filter (\<lambda>keyword. \<not> js_includes (toLowerCase content) (toLowerCase keyword)) ks' = []
        then [] else [str ''keywords'']) @
       (case sec of None \<Rightarrow> []
        | Some s \<Rightarrow> map id' (getSectionSpecificSuggestions s content role))"
    by (rule engine_ids)
  with assms(2) have "ks' = ks" by simp
  show ?thesis
    unfolding count_by_id [of id'] ids \<open>ks' = ks\<close>
    by (cases sec) (simp_all add: section_ids)
qed

lemma missing_in_profile_order:
  "subseq (take n (filter P ks)) ks \<and> length (take n (filter P ks)) \<le> n"
proof -
  have "subseq (take n (filter P ks)) (filter P ks)"
    by (simp add: prefix_imp_subseq take_is_prefix)
  moreover have "subseq (filter P ks) ks" by simp
  ultimately have "subseq (take n (filter P ks)) ks"
    by (rule subseq_order.order_trans)
  then show ?thesis by simp
qed

lemma software_engineer_example:
  assumes "generateRealTimeSuggestions content (str ''software engineer'') area sec = Inr out"
    and "list_all (\<lambda>keyword. \<not> js_includes (toLowerCase content) (toLowerCase keyword))
           (map str [''JavaScript'', ''Python'', ''React'', ''Node.js'', ''API'', ''Git'', ''Agile''])"
  shows "\<exists>x\<in>set out. id' x = str ''keywords'' \<and>
           suggestion x = str ''Consider adding: JavaScript, Python, React, Node.js, API''"
proof -
  let ?ks = "map str [''JavaScript'', ''Python'', ''React'', ''Node.js'', ''API'', ''Git'', ''Agile'']"
  let ?missing = "filter (\<lambda>keyword. \<not> js_includes (toLowerCase content) (toLowerCase keyword)) ?ks"
  from assms(2) have m: "?missing = ?ks" by simp
  then have "?missing \<noteq> []" by simp
  from keywords_suggestion [OF assms(1) software_engineer_profile refl this]
  obtain x where x: "x \<in> set out" "id' x = str ''keywords''"
    "suggestion x = str ''Consider adding: '' @ join (str '', '') (take 5 ?missing)"
    by blast
  have "str ''Consider adding: '' @ join (str '', '') (take 5 ?ks) =
        str ''Consider adding: JavaScript, Python, React, Node.js, API''"
    by (simp add: str_def)
  with x m show ?thesis by auto
qed

text \<open>
  C4: every role that is not in the table is meant to get the default profile. The role
  \<open>Constructor\<close> is not in the table, yet the lookup of its case-folded form yields the
  inherited function \<open>Object.prototype.constructor\<close> instead of the default profile, and
  the engine throws before any \<open>keywords\<close> suggestion is made. (For the roles that do
  reach a profile, \<open>unknown_role_default\<close>, \<open>keywords_suggestion\<close>, \<open>keywords_count\<close>,
  \<open>missing_in_profile_order\<close> and \<open>software_engineer_example\<close> show the rest of the claim.)
\<close>

theorem unknown_role_reaches_prototype:
  "map_of keywordMap (toLowerCase (str ''Constructor'')) = None \<and>
   getRoleSpecificKeywords (str ''Constructor'') area = Function (str ''constructor'') \<and>
   generateRealTimeSuggestions content (str ''Constructor'') area sec = Inl TypeError"
proof -
  have g: "getRoleSpecificKeywords (str ''Constructor'') area = Function (str ''constructor'')"
    by (simp add: getRole_constructor lower_Constructor)
  then have "generateRealTimeSuggestions content (str ''Constructor'') area sec = Inl TypeError"
    by (intro engine_not_Array) simp
  with g show ?thesis by (simp add: lower_Constructor keywordMap_constructor)
qed


section \<open>Pieces and tokens\<close>

text \<open>
  The pieces of \<open>split(/\s+/)\<close> are the tokens of the text, one empty piece more when
  the text starts with white space (or is empty) and one more when it ends with white
  space. So on a non-empty text without leading and trailing white space \<open>wordCount\<close>
  is the number of tokens, and the engine's test is the one of C2.
\<close>

lemma split_ws_from_length:
  "length (split_ws_from p s) = length (split_ws_from q s)"
proof (induction p s arbitrary: q rule: split_ws_from.induct)
  case (1 piece)
  show ?case by simp
next
  case (2 piece c cs)
  show ?case
  proof (cases "is_space c")
    case True
    then show ?thesis by simp
  next
    case False
    with "2.IH"(2) [of "q @ [c]"] show ?thesis by simp
  qed
qed

lemma pieces_space:
  "is_space c \<Longrightarrow> length (split_ws (c # cs)) = Suc (length (split_ws (dropWhile is_space cs)))"
  by (simp add: split_ws_def)

lemma pieces_nonspace: "\<not> is_space c \<Longrightarrow> length (split_ws (c # cs)) = length (split_ws cs)"
  using split_ws_from_length [of "[c]" cs "[]"] by (simp add: split_ws_def)

lemma pieces_skip_word:
  "length (split_ws (dropWhile (\<lambda>x. \<not> is_space x) s)) = length (split_ws s)"
  by (induction s) (simp_all add: pieces_nonspace)

lemma tokens_skip_space: "tokens (dropWhile is_space s) = tokens s"
  by (induction s) simp_all

lemma last_dropWhile: "dropWhile P s \<noteq> [] \<Longrightarrow> last (dropWhile P s) = last s"
  by (metis last_appendR takeWhile_dropWhile_id)

lemma dropWhile_Nil_last: "dropWhile P s = [] \<Longrightarrow> s \<noteq> [] \<Longrightarrow> P (last s)"
  by simp

lemma pieces_tokens:
  "length (split_ws s) =
     length (tokens s) + (if s = [] \<or> is_space (hd s) then 1 else 0) +
     (if s \<noteq> [] \<and> is_space (last s) then 1 else 0)"
proof (induction s rule: length_induct)
  case (1 s)
  show ?case
  proof (cases s)
    case Nil
    then show ?thesis by (simp add: split_ws_def)
  next
    case (Cons c cs)
    show ?thesis
    proof (cases "is_space c")
      case True
      let ?d = "dropWhile is_space cs"
      have "length ?d < length s" using Cons length_dropWhile_le [of is_space cs] by simp
      with 1 have IH: "length (split_ws ?d) =
         length (tokens ?d) + (if ?d = [] \<or> is_space (hd ?d) then 1 else 0) +
         (if ?d \<noteq> [] \<and> is_space (last ?d) then 1 else 0)" by blast
      have t: "tokens s = tokens ?d" using Cons True by (simp add: tokens_skip_space)
      show ?thesis
      proof (cases "?d = []")
        case e: True
        have "is_space (last s)"
        proof (cases "cs = []")
          case True
          with Cons \<open>is_space c\<close> show ?thesis by simp
        next
          case False
          with dropWhile_Nil_last [OF e] Cons show ?thesis by simp
        qed
        moreover have "length (split_ws s) = 2"
          using Cons True by (simp only: pieces_space e) (simp add: split_ws_def)
        moreover have "length (tokens s) = 0"
          unfolding t e by simp
        ultimately show ?thesis using Cons True by simp
      next
        case ne: False
        then have h: "\<not> is_space (hd ?d)" by (rule hd_dropWhile)
        from ne have "cs \<noteq> []" by auto
        with last_dropWhile [OF ne] Cons have "last s = last ?d" by simp
        with IH ne h t Cons True show ?thesis by (simp add: pieces_space)
      qed
    next
      case False
      let ?e = "dropWhile (\<lambda>x. \<not> is_space x) cs"
      have "length ?e < length s"
        using Cons length_dropWhile_le [of "\<lambda>x. \<not> is_space x" cs] by simp
      with 1 have IH: "length (split_ws ?e) =
         length (tokens ?e) + (if ?e = [] \<or> is_space (hd ?e) then 1 else 0) +
         (if ?e \<noteq> [] \<and> is_space (last ?e) then 1 else 0)" by blast
      have p: "length (split_ws s) = length (split_ws ?e)"
        using Cons False by (simp add: pieces_nonspace pieces_skip_word)
      have t: "length (tokens s) = Suc (length (tokens ?e))"
        using Cons False by simp
      show ?thesis
      proof (cases "?e = []")
        case e: True
        have "\<not> is_space (last s)"
        proof (cases "cs = []")
          case True
          with Cons False show ?thesis by simp
        next
          case ne: False
          with dropWhile_Nil_last [OF e] Cons show ?thesis by simp
        qed
        moreover have "length (split_ws s) = 1"
          unfolding p e by (simp add: split_ws_def)
        moreover have "length (tokens s) = 1"
          unfolding t e by simp
        ultimately show ?thesis using Cons False by simp
      next
        case ne: False
        then have h: "is_space (hd ?e)" using hd_dropWhile [OF ne] by simp
        from ne have "cs \<noteq> []" by auto
        with last_dropWhile [OF ne] Cons have "last s = last ?e" by simp
        with IH ne h p t Cons False show ?thesis by simp
      qed
    qed
  qed
qed

lemma word_count_suggestion_count:
  assumes "generateRealTimeSuggestions content role area sec = Inr out"
  shows "length (filter (\<lambda>x. id' x = str ''word-count'') out) =
           (if length (split_ws content) < 200 then 1 else 0)"
proof -
  from assms obtain ks where
    ids: "map id' out =
       (if length (split_ws content) < 200 then [str ''word-count''] else []) @
       (if test True quantified_pattern content then [] else [str ''quantify'']) @
       (if test True action_verb_pattern content then [] else [str ''action-verbs'']) @
       (if filter (\<lambda>keyword. \<not> js_includes (toLowerCase content) (toLowerCase keyword)) ks = []
        then [] else [str ''keywords'']) @
       (case sec of None \<Rightarrow> []
        | Some s \<Rightarrow> map id' (getSectionSpecificSuggestions s content role))"
    by (rule engine_ids)
  show ?thesis
    unfolding count_by_id [of id'] ids
    by (cases sec) (simp_all add: section_ids)
qed

lemma word_count_on_trimmed_text:
  assumes "generateRealTimeSuggestions content role area sec = Inr out"
    and "content \<noteq> []" "\<not> is_space (hd content)" "\<not> is_space (last content)"
  shows "length (filter (\<lambda>x. id' x = str ''word-count'') out) =
           (if length (tokens content) < 200 then 1 else 0)"
  using word_count_suggestion_count [OF assms(1)] assms(2-4)
  by (simp add: pieces_tokens)

section \<open>Patterns and the substrings they match\<close>

lemma test_iff: "test i r s \<longleftrightarrow> (\<exists>u t. s = u @ t \<and> matches i r t \<noteq> [])"
proof (induction s)
  case Nil
  show ?case by simp
next
  case (Cons c cs)
  have "(\<exists>u t. c # cs = u @ t \<and> matches i r t \<noteq> []) \<longleftrightarrow>
        matches i r (c # cs) \<noteq> [] \<or> (\<exists>u t. cs = u @ t \<and> matches i r t \<noteq> [])"
    (is "?L \<longleftrightarrow> ?R")
  proof
    assume ?L
    then obtain u t where ut: "c # cs = u @ t" "matches i r t \<noteq> []" by blast
    show ?R
    proof (cases u)
      case Nil
      with ut show ?thesis by simp
    next
      case (Cons a u')
      with ut have "cs = u' @ t" by simp
      with ut(2) show ?thesis by blast
    qed
  next
    assume ?R
    then show ?L
    proof
      assume "matches i r (c # cs) \<noteq> []"
      then have "c # cs = [] @ (c # cs) \<and> matches i r (c # cs) \<noteq> []" by simp
      then show ?L by blast
    next
      assume "\<exists>u t. cs = u @ t \<and> matches i r t \<noteq> []"
      then obtain u t where "cs = u @ t" "matches i r t \<noteq> []" by blast
      then have "c # cs = (c # u) @ t \<and> matches i r t \<noteq> []" by simp
      then show ?L by blast
    qed
  qed
  with Cons.IH show ?case by simp
qed

lemma matches_One_iff:
  "v \<in> set (matches i (One k) t) \<longleftrightarrow> (\<exists>c. t = c # v \<and> cls_match i k c)"
  by (cases t) auto

lemma matches_Plus_iff:
  "v \<in> set (matches i (Plus k) t) \<longleftrightarrow>
     (\<exists>m. t = m @ v \<and> m \<noteq> [] \<and> list_all (cls_match i k) m)"
proof -
  let ?P = "cls_match i k"
  let ?L = "length (takeWhile ?P t)"
  have "v \<in> set (matches i (Plus k) t) \<longleftrightarrow> (\<exists>n. 1 \<le> n \<and> n \<le> ?L \<and> v = drop n t)"
    by (auto simp: image_iff)
  also have "\<dots> \<longleftrightarrow> (\<exists>m. t = m @ v \<and> m \<noteq> [] \<and> list_all ?P m)"
  proof
    assume "\<exists>n. 1 \<le> n \<and> n \<le> ?L \<and> v = drop n t"
    then obtain n where n: "1 \<le> n" "n \<le> ?L" "v = drop n t" by blast
    have L: "?L \<le> length t" by (rule length_takeWhile_le)
    have "take n (takeWhile ?P t @ dropWhile ?P t) = take n (takeWhile ?P t)"
      using n(2) by (simp only: take_append) simp
    then have tk: "take n t = take n (takeWhile ?P t)"
      by (simp only: takeWhile_dropWhile_id)
    have "list_all ?P (take n t)"
      unfolding tk list_all_iff by (auto dest: in_set_takeD set_takeWhileD)
    moreover have "take n t \<noteq> []" using n L by auto
    moreover have "t = take n t @ v" using n(3) by simp
    ultimately show "\<exists>m. t = m @ v \<and> m \<noteq> [] \<and> list_all ?P m" by blast
  next
    assume "\<exists>m. t = m @ v \<and> m \<noteq> [] \<and> list_all ?P m"
    then obtain m where m: "t = m @ v" "m \<noteq> []" "list_all ?P m" by blast
    then have "takeWhile ?P t = m @ takeWhile ?P v"
      by (simp add: list_all_iff)
    then have "length m \<le> ?L" by simp
    moreover have "1 \<le> length m" using m(2) by (cases m) auto
    moreover have "v = drop (length m) t" using m(1) by simp
    ultimately show "\<exists>n. 1 \<le> n \<and> n \<le> ?L \<and> v = drop n t" by blast
  qed
  finally show ?thesis .
qed

lemma matches_literal_iff:
  "v \<in> set (matches i (literal w) t) \<longleftrightarrow>
     (\<exists>m. t = m @ v \<and> list_all2 (\<lambda>p c. cls_match i (Lit p) c) w m)"
proof (induction w arbitrary: t)
  case Nil
  show ?case by auto
next
  case (Cons p ps)
  have "v \<in> set (matches i (literal (p # ps)) t) \<longleftrightarrow>
        (\<exists>c t'. t = c # t' \<and> cls_match i (Lit p) c \<and> v \<in> set (matches i (literal ps) t'))"
    by (cases t) auto
  also have "\<dots> \<longleftrightarrow> (\<exists>c t' m'. t = c # t' \<and> cls_match i (Lit p) c \<and> t' = m' @ v \<and>
        list_all2 (\<lambda>p c. cls_match i (Lit p) c) ps m')"
    unfolding Cons.IH by blast
  also have "\<dots> \<longleftrightarrow> (\<exists>m. t = m @ v \<and> list_all2 (\<lambda>p c. cls_match i (Lit p) c) (p # ps) m)"
    by (auto simp: list_all2_Cons1)
  finally show ?case .
qed

lemma matches_nonempty_iff: "matches i r t \<noteq> [] \<longleftrightarrow> (\<exists>v. v \<in> set (matches i r t))"
  by (cases "matches i r t") auto

lemma ex_disj6:
  "(\<exists>m. Q m \<and> (P1 m \<or> P2 m \<or> P3 m \<or> P4 m \<or> P5 m \<or> P6 m)) \<longleftrightarrow>
   (\<exists>m. Q m \<and> P1 m) \<or> (\<exists>m. Q m \<and> P2 m) \<or> (\<exists>m. Q m \<and> P3 m) \<or>
   (\<exists>m. Q m \<and> P4 m) \<or> (\<exists>m. Q m \<and> P5 m) \<or> (\<exists>m. Q m \<and> P6 m)"
  by blast

lemma lit_nonletter: "c < 65 \<Longrightarrow> cls_match True (Lit c) x \<longleftrightarrow> x = c"
  by (auto simp: ascii_upper_def)

lemma matches_quantified_iff:
  "v \<in> set (matches True quantified_pattern t) \<longleftrightarrow> (\<exists>m. t = m @ v \<and> quantified_match m)"
proof -
  have d: "cls_match True Digit = is_digit" by (simp add: fun_eq_iff)
  have a: "v \<in> set (matches True (Seq (Plus Digit) (One (Lit c))) t) \<longleftrightarrow>
        (\<exists>ds. t = (ds @ [c]) @ v \<and> ds \<noteq> [] \<and> list_all is_digit ds)" if "c < 65" for c
  proof -
    have "v \<in> set (matches True (Seq (Plus Digit) (One (Lit c))) t) \<longleftrightarrow>
          (\<exists>w. w \<in> set (matches True (Plus Digit) t) \<and> v \<in> set (matches True (One (Lit c)) w))"
      by auto
    also have "\<dots> \<longleftrightarrow> (\<exists>w ds. t = ds @ w \<and> ds \<noteq> [] \<and> list_all is_digit ds \<and> w = c # v)"
      unfolding matches_Plus_iff matches_One_iff d lit_nonletter [OF that] by auto
    also have "\<dots> \<longleftrightarrow> (\<exists>ds. t = (ds @ [c]) @ v \<and> ds \<noteq> [] \<and> list_all is_digit ds)"
      by auto
    finally show ?thesis .
  qed
  have b: "v \<in> set (matches True (Seq (One (Lit 36)) (Plus Digit)) t) \<longleftrightarrow>
        (\<exists>ds. t = (36 # ds) @ v \<and> ds \<noteq> [] \<and> list_all is_digit ds)"
  proof -
    have l: "cls_match True (Lit 36) x \<longleftrightarrow> x = 36" for x
      by (rule lit_nonletter) simp
    have "v \<in> set (matches True (Seq (One (Lit 36)) (Plus Digit)) t) \<longleftrightarrow>
          (\<exists>w. w \<in> set (matches True (One (Lit 36)) t) \<and> v \<in> set (matches True (Plus Digit) w))"
      by auto
    also have "\<dots> \<longleftrightarrow> (\<exists>w ds. t = 36 # w \<and> w = ds @ v \<and> ds \<noteq> [] \<and> list_all is_digit ds)"
      unfolding matches_Plus_iff matches_One_iff d l by auto
    also have "\<dots> \<longleftrightarrow> (\<exists>ds. t = (36 # ds) @ v \<and> ds \<noteq> [] \<and> list_all is_digit ds)"
      by auto
    finally show ?thesis .
  qed
  have "v \<in> set (matches True quantified_pattern t) \<longleftrightarrow>
        v \<in> set (matches True (Seq (Plus Digit) (One (Lit 37))) t) \<or>
        v \<in> set (matches True (Seq (Plus Digit) (One (Lit 43))) t) \<or>
        v \<in> set (matches True (Seq (One (Lit 36)) (Plus Digit)) t) \<or>
        v \<in> set (matches True (literal (str ''increased'')) t) \<or>
        v \<in> set (matches True (literal (str ''improved'')) t) \<or>
        v \<in> set (matches True (literal (str ''reduced'')) t)"
    unfolding quantified_pattern_def matches.simps(6) set_append Un_iff by blast
  also have "\<dots> \<longleftrightarrow> (\<exists>m. t = m @ v \<and> quantified_match m)"
  proof -
    have c37: "(37::nat) < 65" and c43: "(43::nat) < 65" by simp_all
    have p: "v \<in> set (matches True (Seq (Plus Digit) (One (Lit 37))) t) \<longleftrightarrow>
        (\<exists>m. t = m @ v \<and> (\<exists>ds. m = ds @ [37] \<and> ds \<noteq> [] \<and> list_all is_digit ds))"
      unfolding a [OF c37] by blast
    have q: "v \<in> set (matches True (Seq (Plus Digit) (One (Lit 43))) t) \<longleftrightarrow>
        (\<exists>m. t = m @ v \<and> (\<exists>ds. m = ds @ [43] \<and> ds \<noteq> [] \<and> list_all is_digit ds))"
      unfolding a [OF c43] by blast
    have r: "v \<in> set (matches True (Seq (One (Lit 36)) (Plus Digit)) t) \<longleftrightarrow>
        (\<exists>m. t = m @ v \<and> (\<exists>ds. m = 36 # ds \<and> ds \<noteq> [] \<and> list_all is_digit ds))"
      unfolding b by blast
    show ?thesis
      unfolding p q r matches_literal_iff quantified_match_def ex_disj6 by (rule refl)
  qed
  finally show ?thesis .
qed

section \<open>The patterns in the specification's words\<close>

lemma percentage_figure_iff:
  "percentage_figure m \<longleftrightarrow> (\<exists>ds. m = ds @ [37] \<and> ds \<noteq> [] \<and> list_all is_digit ds)"
  by (auto simp: percentage_figure_def list_ex_iff number_def str_def)

lemma plus_suffixed_number_iff:
  "plus_suffixed_number m \<longleftrightarrow> (\<exists>ds. m = ds @ [43] \<and> ds \<noteq> [] \<and> list_all is_digit ds)"
  by (auto simp: plus_suffixed_number_def list_ex_iff number_def str_def)

lemma dollar_amount_iff:
  "dollar_amount m \<longleftrightarrow> (\<exists>ds. m = 36 # ds \<and> ds \<noteq> [] \<and> list_all is_digit ds)"
  by (auto simp: dollar_amount_def list_ex_iff number_def str_def suffix_def)

lemma map_eq_iff_list_all2: "map f xs = ys \<longleftrightarrow> list_all2 (\<lambda>y x. y = f x) ys xs"
  by (induction xs arbitrary: ys) (auto simp: list_all2_Cons2)

lemma list_all2_cong_left:
  assumes "\<And>p c. p \<in> set ps \<Longrightarrow> A p c \<longleftrightarrow> B p c"
  shows "list_all2 A ps m \<longleftrightarrow> list_all2 B ps m"
  using assms by (induction ps arbitrary: m) (auto simp: list_all2_Cons1)

lemma lower_eq_letter:
  assumes "97 \<le> p" "p \<le> 122"
  shows "p = lower_unit c \<longleftrightarrow> cls_match True (Lit p) c"
  using assms by (auto simp: lower_unit_def ascii_upper_def)

lemma the_word_iff:
  assumes "\<forall>p\<in>set (str w). 97 \<le> p \<and> p \<le> 122"
  shows "the_word w m \<longleftrightarrow> list_all2 (\<lambda>p c. cls_match True (Lit p) c) (str w) m"
proof -
  have "the_word w m \<longleftrightarrow> list_all2 (\<lambda>p c. p = lower_unit c) (str w) m"
    by (simp add: the_word_def toLowerCase_def map_eq_iff_list_all2)
  also have "\<dots> \<longleftrightarrow> list_all2 (\<lambda>p c. cls_match True (Lit p) c) (str w) m"
    using assms by (intro list_all2_cong_left lower_eq_letter) auto
  finally show ?thesis .
qed

lemma quantified_match_iff: "quantified_match m \<longleftrightarrow> quantification m"
proof -
  have w1: "the_word ''increased'' m \<longleftrightarrow>
          list_all2 (\<lambda>p c. cls_match True (Lit p) c) (str ''increased'') m"
    by (rule the_word_iff) (simp add: str_def)
  have w2: "the_word ''improved'' m \<longleftrightarrow>
          list_all2 (\<lambda>p c. cls_match True (Lit p) c) (str ''improved'') m"
    by (rule the_word_iff) (simp add: str_def)
  have w3: "the_word ''reduced'' m \<longleftrightarrow>
          list_all2 (\<lambda>p c. cls_match True (Lit p) c) (str ''reduced'') m"
    by (rule the_word_iff) (simp add: str_def)
  show ?thesis
    unfolding quantified_match_def quantification_def percentage_figure_iff
      plus_suffixed_number_iff dollar_amount_iff w1 w2 w3 by (rule refl)
qed

lemma in_substrings: "m \<in> set (substrings s) \<longleftrightarrow> (\<exists>u v. s = u @ m @ v)"
proof
  assume "m \<in> set (substrings s)"
  then obtain t where "suffix t s" "prefix m t"
    by (auto simp: substrings_def)
  then obtain u v where "s = u @ t" "t = m @ v"
    by (auto simp: prefix_def suffix_def)
  then show "\<exists>u v. s = u @ m @ v" by blast
next
  assume "\<exists>u v. s = u @ m @ v"
  then obtain u v where s: "s = u @ m @ v" by blast
  have "suffix (m @ v) s" unfolding s by (rule suffixI) simp
  then have "m @ v \<in> set (suffixes s)" by simp
  moreover have "m \<in> set (prefixes (m @ v))" by simp
  ultimately show "m \<in> set (substrings s)"
    unfolding substrings_def set_concat set_map by blast
qed

lemma contains_quantification_iff:
  "contains_quantification s \<longleftrightarrow> (\<exists>u m v. s = u @ m @ v \<and> quantification m)"
  unfolding contains_quantification_def list_ex_iff Bex_def in_substrings by blast

lemma test_quantified: "test True quantified_pattern s \<longleftrightarrow> contains_quantification s"
proof -
  have "test True quantified_pattern s \<longleftrightarrow>
        (\<exists>u t v. s = u @ t \<and> v \<in> set (matches True quantified_pattern t))"
    unfolding test_iff matches_nonempty_iff by blast
  also have "\<dots> \<longleftrightarrow> (\<exists>u t v m. s = u @ t \<and> t = m @ v \<and> quantification m)"
    unfolding matches_quantified_iff quantified_match_iff by blast
  also have "\<dots> \<longleftrightarrow> (\<exists>u m v. s = u @ m @ v \<and> quantification m)"
    by blast
  finally show ?thesis by (simp add: contains_quantification_iff)
qed

text \<open>
  Whenever the engine returns, its list holds exactly one suggestion with the id
  \<open>quantify\<close> if the text contains no percentage figure, no plus-suffixed number, no
  dollar amount and none of the words increased, improved, reduced (in any case), and
  no such suggestion if the text contains one of them.
\<close>

lemma quantify_count_of_result:
  assumes "generateRealTimeSuggestions content role area sec = Inr out"
  shows "length (filter (\<lambda>x. id' x = str ''quantify'') out) =
           (if contains_quantification content then 0 else 1)"
proof -
  from assms obtain ks where
    ids: "map id' out =
       (if length (split_ws content) < 200 then [str ''word-count''] else []) @
       (if test True quantified_pattern content then [] else [str ''quantify'']) @
       (if test True action_verb_pattern content then [] else [str ''action-verbs'']) @
       (if filter (\<lambda>keyword. \<not> js_includes (toLowerCase content) (toLowerCase keyword)) ks = []
        then [] else [str ''keywords'']) @
       (case sec of None \<Rightarrow> []
        | Some s \<Rightarrow> map id' (getSectionSpecificSuggestions s content role))"
    by (rule engine_ids)
  show ?thesis
    unfolding count_by_id [of id'] ids test_quantified
    by (cases sec) (simp_all add: section_ids)
qed

text \<open>
  The engine returns for every role whose lower-case form is neither \<open>constructor\<close> nor
  \<open>__proto__\<close>, and then the list it returns is as C3 says.
\<close>

lemma quantify_count_unless_thrown:
  assumes "toLowerCase role \<noteq> str ''constructor''" and "toLowerCase role \<noteq> str ''__proto__''"
  shows "\<exists>out. generateRealTimeSuggestions content role area sec = Inr out \<and>
           length (filter (\<lambda>x. id' x = str ''quantify'') out) =
             (if contains_quantification content then 0 else 1)"
proof -
  from assms obtain out where o: "generateRealTimeSuggestions content role area sec = Inr out"
    using engine_returns_iff [of content role area sec] by blast
  from quantify_count_of_result [OF o] o show ?thesis by blast
qed

lemma quantify_examples:
  "contains_quantification (str ''Cut costs by 40%'') \<and>
   (\<exists>out. generateRealTimeSuggestions (str ''Cut costs by 40%'') (str ''nurse'') [] None = Inr out \<and>
      length (filter (\<lambda>x. id' x = str ''quantify'') out) = 0) \<and>
   \<not> contains_quantification (str ''Nurse.'') \<and>
   (\<exists>out. generateRealTimeSuggestions (str ''Nurse.'') (str ''nurse'') [] None = Inr out \<and>
      length (filter (\<lambda>x. id' x = str ''quantify'') out) = 1)"
proof -
  have n: "toLowerCase (str ''nurse'') \<noteq> str ''constructor''"
    "toLowerCase (str ''nurse'') \<noteq> str ''__proto__''"
    by (simp_all add: lower_nurse)
  have "str ''Cut costs by 40%'' = str ''Cut costs by 4'' @ str ''0%'' @ []"
    by (simp add: str_def)
  moreover have "quantification (str ''0%'')"
    by (simp add: quantification_def percentage_figure_iff str_def is_digit_def)
  ultimately have c1: "contains_quantification (str ''Cut costs by 40%'')"
    unfolding contains_quantification_iff by blast
  have c2: "\<not> contains_quantification (str ''Nurse.'')"
    by code_simp
  from quantify_count_unless_thrown [OF n, of "str ''Cut costs by 40%''" "[]" None]
    quantify_count_unless_thrown [OF n, of "str ''Nurse.''" "[]" None] c1 c2
  show ?thesis by simp
qed

text \<open>
  C3: a text without any of the quantification patterns is meant to get exactly one
  \<open>quantify\<close> suggestion, whatever the role. The text \<open>Nurse.\<close> contains none of the
  patterns; the engine gives the suggestion for the role \<open>nurse\<close>, but for the role
  \<open>constructor\<close> it throws at \<open>roleKeywords.filter\<close>, before any suggestion is made, and
  gives none. (For every other role the claim holds: \<open>quantify_count_unless_thrown\<close>,
  with \<open>test_quantified\<close> relating the engine's pattern to the patterns of the claim.)
\<close>

theorem quantify_lost_on_constructor:
  "\<not> contains_quantification (str ''Nurse.'') \<and>
   generateRealTimeSuggestions (str ''Nurse.'') (str ''constructor'') [] None = Inl TypeError \<and>
   (\<exists>out. generateRealTimeSuggestions (str ''Nurse.'') (str ''nurse'') [] None = Inr out \<and>
          length (filter (\<lambda>x. id' x = str ''quantify'') out) = 1)"
proof -
  have "\<not> (\<exists>ks. getRoleSpecificKeywords (str ''constructor'') [] = Array ks)"
    by (simp add: getRole_constructor lower_constructor)
  then have "generateRealTimeSuggestions (str ''Nurse.'') (str ''constructor'') [] None =
      Inl TypeError"
    by (rule engine_not_Array)
  with quantify_examples show ?thesis by blast
qed

section \<open>The parser consumes what it reads\<close>

text \<open>
  Every value the parser reads is followed by a strictly shorter text. So the tests on
  lengths in \<open>parse_value\<close>, \<open>parse_elements\<close> and \<open>parse_members\<close>, which carry the
  termination proof, always succeed: the functions satisfy the equations without them.
\<close>

lemma skip_ws_length: "length (skip_ws s) \<le> length s"
  by (simp add: skip_ws_def length_dropWhile_le)

lemma skip_ws_Cons_length: "skip_ws s = c # r \<Longrightarrow> length r < length s"
  using skip_ws_length [of s] by simp

lemma parse_escape_length: "parse_escape s = Some (u, r) \<Longrightarrow> length r < length s"
  by (auto simp: parse_escape_def split: list.splits if_splits option.splits)

lemma parse_chars_length: "parse_chars acc s = Some (x, r) \<Longrightarrow> length r < length s"
proof (induction acc s rule: parse_chars.induct)
  case (1 acc)
  then show ?case by simp
next
  case (2 acc c cs)
  show ?case
  proof (cases "c = 34")
    case True
    with 2 show ?thesis by simp
  next
    case q: False
    show ?thesis
    proof (cases "c = 92")
      case True
      with q "2.prems" obtain u t where e: "parse_escape cs = Some (u, t)"
        and p: "parse_chars (acc @ [u]) t = Some (x, r)"
        by (auto split: option.splits)
      from "2.IH"(1) [OF q True e refl p] have "length r < length t" .
      with parse_escape_length [OF e] show ?thesis by simp
    next
      case False
      with q "2.prems" have c: "\<not> c < 32" and p: "parse_chars (acc @ [c]) cs = Some (x, r)"
        by (auto split: if_splits)
      from "2.IH"(2) [OF q False c p] show ?thesis by simp
    qed
  qed
qed

lemma parse_integer_length: "parse_integer s = Some (i, r) \<Longrightarrow> length r < length s"
proof -
  assume a: "parse_integer s = Some (i, r)"
  then obtain c cs where s: "s = c # cs" by (cases s) (auto simp: parse_integer_def)
  show ?thesis
  proof (cases "c = 48")
    case True
    with a s show ?thesis by (simp add: parse_integer_def)
  next
    case False
    with a s have d: "is_digit c" and r: "r = dropWhile is_digit s"
      by (auto simp: parse_integer_def split: if_splits)
    from d s have "dropWhile is_digit s = dropWhile is_digit cs" by simp
    with r s show ?thesis
      using length_dropWhile_le [of is_digit cs] by simp
  qed
qed

lemma parse_fraction_length: "parse_fraction s = Some (f, r) \<Longrightarrow> length r \<le> length s"
proof (cases s)
  case Nil
  assume "parse_fraction s = Some (f, r)"
  with Nil show ?thesis by (simp add: parse_fraction_def)
next
  case (Cons c cs)
  assume "parse_fraction s = Some (f, r)"
  with Cons have "r = s \<or> r = dropWhile is_digit cs"
    by (auto simp: parse_fraction_def Let_def split: if_splits)
  with Cons show ?thesis
    using length_dropWhile_le [of is_digit cs] by auto
qed

lemma parse_exponent_length: "parse_exponent s = Some (e, r) \<Longrightarrow> length r \<le> length s"
proof (cases s)
  case Nil
  assume "parse_exponent s = Some (e, r)"
  with Nil show ?thesis by (simp add: parse_exponent_def)
next
  case (Cons c cs)
  assume "parse_exponent s = Some (e, r)"
  with Cons have "r = s \<or> r = dropWhile is_digit cs \<or> r = dropWhile is_digit (tl cs)"
    by (auto simp: parse_exponent_def Let_def split: if_splits)
  with Cons show ?thesis
    using length_dropWhile_le [of is_digit cs] length_dropWhile_le [of is_digit "tl cs"]
    by auto
qed

lemma parse_number_length:
  assumes "parse_number s = Some (n, r)"
  shows "length r < length s"
proof -
  let ?s1 = "if s \<noteq> [] \<and> hd s = 45 then tl s else s"
  from assms obtain i s2 f s3 e where
    a: "parse_integer ?s1 = Some (i, s2)" and b: "parse_fraction s2 = Some (f, s3)"
    and c: "parse_exponent s3 = Some (e, r)"
    by (auto simp: parse_number_def Let_def split: option.splits)
  have "length ?s1 \<le> length s" by simp
  with parse_integer_length [OF a] parse_fraction_length [OF b] parse_exponent_length [OF c]
  show ?thesis by linarith
qed

lemma parse_consumes_upto:
  "\<forall>s. length s \<le> n \<longrightarrow>
     (\<forall>v r. parse_value s = Some (v, r) \<longrightarrow> length r < length s) \<and>
     (\<forall>acc v r. parse_elements acc s = Some (v, r) \<longrightarrow> length r < length s) \<and>
     (\<forall>acc v r. parse_members acc s = Some (v, r) \<longrightarrow> length r < length s)"
proof (induction n)
  case 0
  show ?case by (simp add: skip_ws_def)
next
  case (Suc n)
  show ?case
  proof (intro allI impI)
    fix s :: jsstring
    assume len: "length s \<le> Suc n"
    have smaller: "length t \<le> n" if "length t < length s" for t :: jsstring
      using that len by simp
    have V: "length r < length s" if a: "parse_value s = Some (v, r)" for v r
    proof -
      from a obtain c t where k: "skip_ws s = c # t"
        by (cases "skip_ws s") auto
      have lt: "length t < length s" using k by (rule skip_ws_Cons_length)
      have ls: "length (skip_ws t) \<le> length t" by (rule skip_ws_length)
      from Suc.IH smaller [OF lt]
      have E: "\<And>acc v r. parse_elements acc t = Some (v, r) \<Longrightarrow> length r < length t"
        and M: "\<And>acc v r. parse_members acc t = Some (v, r) \<Longrightarrow> length r < length t"
        by blast+
      consider (obj) "c = 123" | (arr) "c \<noteq> 123" "c = 91" | (strg) "c \<noteq> 123" "c \<noteq> 91" "c = 34"
        | (other) "c \<noteq> 123" "c \<noteq> 91" "c \<noteq> 34" by blast
      then show ?thesis
      proof cases
        case obj
        with a k lt have "r = tl (skip_ws t) \<or> parse_members [] t = Some (v, r)"
          by (auto split: if_splits)
        then show ?thesis
        proof
          assume "r = tl (skip_ws t)"
          with ls lt show ?thesis by simp
        next
          assume "parse_members [] t = Some (v, r)"
          from M [OF this] lt show ?thesis by simp
        qed
      next
        case arr
        with a k lt have "r = tl (skip_ws t) \<or> parse_elements [] t = Some (v, r)"
          by (auto split: if_splits)
        then show ?thesis
        proof
          assume "r = tl (skip_ws t)"
          with ls lt show ?thesis by simp
        next
          assume "parse_elements [] t = Some (v, r)"
          from E [OF this] lt show ?thesis by simp
        qed
      next
        case strg
        with a k obtain x where "parse_chars [] t = Some (x, r)"
          by (auto split: option.splits)
        from parse_chars_length [OF this] lt show ?thesis by simp
      next
        case other
        with a k have "r = drop 4 (c # t) \<or> r = drop 5 (c # t) \<or>
            (\<exists>n. parse_number (c # t) = Some (n, r))"
          by (auto split: if_splits option.splits)
        moreover have "length (c # t) \<le> length s"
          using skip_ws_length [of s] k by simp
        ultimately show ?thesis
          by (auto dest!: parse_number_length)
      qed
    qed
    have E: "length r < length s" if a: "parse_elements acc s = Some (v, r)" for acc v r
    proof -
      from a obtain v0 r0 where p: "parse_value s = Some (v0, r0)"
        by (auto split: option.splits)
      from V [OF p] have l0: "length r0 < length s" .
      from a p obtain c r' where k: "skip_ws r0 = c # r'"
        by (cases "skip_ws r0") auto
      have l1: "length r' < length r0" using k by (rule skip_ws_Cons_length)
      from a p k have "r = r' \<or> parse_elements (acc @ [v0]) r' = Some (v, r)"
        by (auto split: if_splits)
      then show ?thesis
      proof
        assume "r = r'"
        with l0 l1 show ?thesis by simp
      next
        assume b: "parse_elements (acc @ [v0]) r' = Some (v, r)"
        from l0 l1 have "length r' < length s" by simp
        from Suc.IH smaller [OF this] b have "length r < length r'" by blast
        with l0 l1 show ?thesis by simp
      qed
    qed
    have M: "length r < length s" if a: "parse_members acc s = Some (v, r)" for acc v r
    proof -
      from a obtain q t where k: "skip_ws s = q # t"
        by (cases "skip_ws s") auto
      from a k have q: "q = 34" by (auto split: if_splits)
      from a k q obtain key r1 where c: "parse_chars [] t = Some (key, r1)"
        by (auto split: option.splits)
      from a k q c obtain d r2 where k1: "skip_ws r1 = d # r2"
        by (cases "skip_ws r1") auto
      from a k q c k1 have g: "d = 58" "length r2 < length s"
        by (auto split: if_splits)
      from a k q c k1 g obtain v0 r3 where p: "parse_value r2 = Some (v0, r3)"
        by (auto split: option.splits)
      from Suc.IH smaller [OF g(2)] p have l3: "length r3 < length r2" by blast
      from a k q c k1 g p obtain e r4 where k3: "skip_ws r3 = e # r4"
        by (cases "skip_ws r3") auto
      have l4: "length r4 < length r3" using k3 by (rule skip_ws_Cons_length)
      from a k q c k1 g p k3 have
        "r = r4 \<or> (length r4 < length s \<and> parse_members (acc @ [(key, v0)]) r4 = Some (v, r))"
        by (auto split: if_splits)
      then show ?thesis
      proof
        assume "r = r4"
        with g l3 l4 show ?thesis by simp
      next
        assume b: "length r4 < length s \<and> parse_members (acc @ [(key, v0)]) r4 = Some (v, r)"
        with Suc.IH smaller [of r4] have "length r < length r4" by blast
        with g l3 l4 show ?thesis by simp
      qed
    qed
    from V E M show
      "(\<forall>v r. parse_value s = Some (v, r) \<longrightarrow> length r < length s) \<and>
       (\<forall>acc v r. parse_elements acc s = Some (v, r) \<longrightarrow> length r < length s) \<and>
       (\<forall>acc v r. parse_members acc s = Some (v, r) \<longrightarrow> length r < length s)"
      by blast
  qed
qed

lemma parse_value_consumes: "parse_value s = Some (v, r) \<Longrightarrow> length r < length s"
  using parse_consumes_upto [of "length s"] by blast

lemma parse_elements_unguarded:
  "parse_elements acc s =
     (case parse_value s of
        None \<Rightarrow> None
      | Some (v, r) \<Rightarrow>
          (case skip_ws r of
             [] \<Rightarrow> None
           | c # r' \<Rightarrow>
               if c = 93 then Some (JArray (acc @ [v]), r')
               else if c = 44 then parse_elements (acc @ [v]) r'
               else None))"
proof (cases "parse_value s")
  case None
  then show ?thesis by simp
next
  case (Some p)
  obtain v r where p: "p = (v, r)" by (cases p)
  from Some p have l: "length r < length s" by (simp add: parse_value_consumes)
  show ?thesis
  proof (cases "skip_ws r")
    case Nil
    with Some p show ?thesis by simp
  next
    case (Cons c r')
    from skip_ws_Cons_length [OF Cons] l have "length r' < length s" by simp
    with Some p Cons show ?thesis by simp
  qed
qed

lemma parse_value_unguarded:
  "parse_value s =
     (case skip_ws s of
        [] \<Rightarrow> None
      | c # r \<Rightarrow>
          if c = 123 then
            (if skip_ws r \<noteq> [] \<and> hd (skip_ws r) = 125
             then Some (JObject [], tl (skip_ws r))
             else parse_members [] r)
          else if c = 91 then
            (if skip_ws r \<noteq> [] \<and> hd (skip_ws r) = 93
             then Some (JArray [], tl (skip_ws r))
             else parse_elements [] r)
          else if c = 34 then
            (case parse_chars [] r of
               None \<Rightarrow> None
             | Some (chars, r') \<Rightarrow> Some (JString chars, r'))
          else if prefix (str ''true'') (c # r) then Some (JBool True, drop 4 (c # r))
          else if prefix (str ''false'') (c # r) then Some (JBool False, drop 5 (c # r))
          else if prefix (str ''null'') (c # r) then Some (JNull, drop 4 (c # r))
          else
            (case parse_number (c # r) of
               None \<Rightarrow> None
             | Some (n, r') \<Rightarrow> Some (JNumber n, r')))"
proof (cases "skip_ws s")
  case Nil
  then show ?thesis by simp
next
  case (Cons c r)
  from skip_ws_Cons_length [OF Cons] have "length r < length s" .
  with Cons show ?thesis by simp
qed

lemma parse_members_unguarded:
  "parse_members acc s =
     (case skip_ws s of
        [] \<Rightarrow> None
      | q # r \<Rightarrow>
          if q = 34 then
            (case parse_chars [] r of
               None \<Rightarrow> None
             | Some (key, r1) \<Rightarrow>
                 (case skip_ws r1 of
                    [] \<Rightarrow> None
                  | c # r2 \<Rightarrow>
                      if c = 58 then
                        (case parse_value r2 of
                           None \<Rightarrow> None
                         | Some (v, r3) \<Rightarrow>
                             (case skip_ws r3 of
                                [] \<Rightarrow> None
                              | d # r4 \<Rightarrow>
                                  if d = 125 then Some (JObject (acc @ [(key, v)]), r4)
                                  else if d = 44 then parse_members (acc @ [(key, v)]) r4
                                  else None))
                      else None))
          else None)"
proof (cases "skip_ws s")
  case Nil
  then show ?thesis by simp
next
  case k: (Cons q r)
  from skip_ws_Cons_length [OF k] have l0: "length r < length s" .
  show ?thesis
  proof (cases "parse_chars [] r")
    case None
    with k show ?thesis by simp
  next
    case (Some p)
    obtain key r1 where p: "p = (key, r1)" by (cases p)
    from Some p have l1: "length r1 < length r" by (simp add: parse_chars_length)
    show ?thesis
    proof (cases "skip_ws r1")
      case Nil
      with k Some p show ?thesis by simp
    next
      case k1: (Cons c r2)
      from skip_ws_Cons_length [OF k1] l0 l1 have l2: "length r2 < length s" by simp
      show ?thesis
      proof (cases "parse_value r2")
        case None
        with k Some p k1 l2 show ?thesis by simp
      next
        case v: (Some pv)
        obtain v0 r3 where pv: "pv = (v0, r3)" by (cases pv)
        from v pv have l3: "length r3 < length r2" by (simp add: parse_value_consumes)
        show ?thesis
        proof (cases "skip_ws r3")
          case Nil
          with k Some p k1 l2 v pv show ?thesis by simp
        next
          case k3: (Cons d r4)
          from skip_ws_Cons_length [OF k3] l2 l3 have "length r4 < length s" by simp
          with k Some p k1 l2 v pv k3 show ?thesis by simp
        qed
      qed
    qed
  qed
qed

section \<open>Facts about the gateway\<close>

lemma dropWhile_hd: "s \<noteq> [] \<Longrightarrow> \<not> P (hd s) \<Longrightarrow> dropWhile P s = s"
  by (cases s) auto

lemma trim_id:
  assumes "s \<noteq> []" "\<not> is_space (hd s)" "\<not> is_space (last s)"
  shows "trim s = s"
proof -
  have "dropWhile is_space s = s" using assms by (simp add: dropWhile_hd)
  moreover have "dropWhile is_space (rev s) = rev s"
    using assms by (intro dropWhile_hd) (simp_all add: hd_rev)
  ultimately show ?thesis by (simp add: trim_def)
qed

lemma matches_literal_exact:
  "matches False (literal w) t = (if prefix w t then [drop (length w) t] else [])"
proof (induction w arbitrary: t)
  case Nil
  show ?case by simp
next
  case (Cons p ps)
  show ?case by (cases t) (simp_all add: Cons.IH)
qed

lemma remove_all_literal_skip:
  assumes "w \<noteq> []" "hd w \<notin> set xs"
  shows "remove_all False (literal w) (xs @ t) = xs @ remove_all False (literal w) t"
  using assms(2)
proof (induction xs)
  case Nil
  show ?case by simp
next
  case (Cons x xs)
  from assms(1) Cons.prems have "\<not> prefix w (x # xs @ t)"
    by (cases w) auto
  with Cons show ?case by (simp add: matches_literal_exact)
qed

lemma remove_all_literal_hit:
  assumes "w \<noteq> []"
  shows "remove_all False (literal w) (w @ t) = remove_all False (literal w) t"
proof -
  from assms obtain c cs where w: "w = c # cs" by (cases w) auto
  have "matches False (literal w) (w @ t) = [t]"
    by (simp add: matches_literal_exact)
  then show ?thesis unfolding w by simp
qed

lemma remove_all_literal_absent:
  assumes "w \<noteq> []" "hd w \<notin> set xs"
  shows "remove_all False (literal w) xs = xs"
  using remove_all_literal_skip [OF assms, of "[]"] by simp

lemma clean_fenced_json:
  assumes "96 \<notin> set j"
  shows "clean_response (fence @ str ''json'' @ [10] @ j @ [10] @ fence) = [10] @ j @ [10]"
proof -
  let ?open = "fence @ str ''json''"
  let ?inner = "[10] @ j @ [10]"
  let ?text = "fence @ str ''json'' @ [10] @ j @ [10] @ fence"
  have t: "trim ?text = ?open @ ?inner @ fence"
    by (subst trim_id) (simp_all add: fence_def is_space_def)
  have p: "prefix ?open (?open @ ?inner @ fence)" by simp
  have i: "96 \<notin> set ?inner" using assms by simp
  have o: "?open \<noteq> []" "hd ?open = 96" "fence \<noteq> []" "hd fence = 96"
    by (simp_all add: fence_def)
  have "remove_all False (literal ?open) (?open @ ?inner @ fence) =
        remove_all False (literal ?open) (?inner @ fence)"
    using o(1) by (rule remove_all_literal_hit)
  also have "\<dots> = ?inner @ remove_all False (literal ?open) fence"
    using o(1) i unfolding o(2) [symmetric] by (rule remove_all_literal_skip)
  also have "remove_all False (literal ?open) fence = fence"
    by (simp add: fence_def str_def matches_literal_exact)
  finally have a: "remove_all False (literal ?open) (?open @ ?inner @ fence) = ?inner @ fence" .
  have "remove_all False (literal fence) (?inner @ fence) =
        ?inner @ remove_all False (literal fence) fence"
    using o(3) i unfolding o(4) [symmetric] by (rule remove_all_literal_skip)
  also have "remove_all False (literal fence) fence = []"
    using remove_all_literal_hit [OF o(3), of "[]"] by simp
  finally have b: "remove_all False (literal fence) (?inner @ fence) = ?inner" by simp
  show ?thesis
    unfolding clean_response_def t Let_def using p a b by (simp only: if_True)
qed

lemma analyze_parse_failure:
  assumes "session p" "\<not> falsy (resumeContent b)" "\<not> falsy (targetRole b)"
    and "call = \<lparr> model = str ''gemini-2.0-flash-exp'', contents = analysis_prompt b,
                    maxOutputTokens = 2000 \<rparr>"
    and "generateContent p call = Inr (Some t)" "t \<noteq> []"
    and "JSON_parse (clean_response t) = None"
  shows "POST_analyze p (Inr b) =
           (failure_response 503 (str ''AI analysis failed'')
              (syntax_error_message p (clean_response t)), [call])"
  using assms by (simp add: POST_analyze_def Let_def)

lemma analyze_call_failure:
  assumes "session p" "\<not> falsy (resumeContent b)" "\<not> falsy (targetRole b)"
    and "call = \<lparr> model = str ''gemini-2.0-flash-exp'', contents = analysis_prompt b,
                    maxOutputTokens = 2000 \<rparr>"
    and "generateContent p call = Inl e"
  shows "POST_analyze p (Inr b) =
           (failure_response 503 (str ''AI analysis failed'')
              (error_details e (str ''Gemini service unavailable'')), [call])"
  using assms by (simp add: POST_analyze_def Let_def)

lemma analyze_parse_success:
  assumes "session p" "\<not> falsy (resumeContent b)" "\<not> falsy (targetRole b)"
    and "call = \<lparr> model = str ''gemini-2.0-flash-exp'', contents = analysis_prompt b,
                    maxOutputTokens = 2000 \<rparr>"
    and "generateContent p call = Inr (Some t)" "t \<noteq> []"
    and "JSON_parse (clean_response t) = Some analysis"
  shows "POST_analyze p (Inr b) =
           (Response 200 (JObject [(str ''success'', JBool True), (str ''analysis'', analysis)]),
            [call])"
  using assms by (simp add: POST_analyze_def Let_def)

lemma clean_plain: "clean_response (str ''Sorry, I cannot help.'') = str ''Sorry, I cannot help.''"
proof -
  have "trim (str ''Sorry, I cannot help.'') = str ''Sorry, I cannot help.''"
    by (rule trim_id) (simp_all add: str_def is_space_def)
  then show ?thesis
    by (simp add: clean_response_def Let_def fence_def str_def)
qed

lemma parse_plain: "JSON_parse (str ''Sorry, I cannot help.'') = None"
  by code_simp

lemma parse_sample:
  "JSON_parse ([10] @ sample_analysis_text @ [10]) =
     Some (JObject
       [(str ''overallScore'', JNumber 80), (str ''strengths'', JArray []),
        (str ''improvements'', JArray []), (str ''missingKeywords'', JArray []),
        (str ''enhancementAreas'', JArray []), (str ''contentSuggestions'', JArray [])])"
  by code_simp

lemma sample_no_backtick: "96 \<notin> set sample_analysis_text"
  by (simp add: sample_analysis_text_def str_def)

lemma improve_invalid:
  assumes "falsy (resumeContent b) \<or> falsy (action b)"
  shows "POST_improve p (Inr b) =
     (if session p then error_response 400 (str ''Resume content and action are required'')
      else error_response 401 (str ''Unauthorized''), [])"
  using assms by (simp add: POST_improve_def)

lemma analyze_invalid:
  assumes "falsy (resumeContent b) \<or> falsy (targetRole b)"
  shows "POST_analyze p (Inr b) =
     (if session p then error_response 400 (str ''Resume content and target role are required'')
      else error_response 401 (str ''Unauthorized''), [])"
  using assms by (simp add: POST_analyze_def)

text \<open>
  C7: both routes check their required fields before the external service is called.
  With an empty or missing resume text or a missing action the improve route makes no
  call, and with a session it answers 400 (the invalid request); with an empty or missing
  resume text or a missing target role the analyze route does the same.
\<close>

theorem gateway_validates_before_calling:
  "(falsy (resumeContent b) \<or> falsy (action b) \<longrightarrow>
      snd (POST_improve p (Inr b)) = [] \<and>
      (session p \<longrightarrow> fst (POST_improve p (Inr b)) =
         error_response 400 (str ''Resume content and action are required''))) \<and>
   (falsy (resumeContent b) \<or> falsy (targetRole b) \<longrightarrow>
      snd (POST_analyze p (Inr b)) = [] \<and>
      (session p \<longrightarrow> fst (POST_analyze p (Inr b)) =
         error_response 400 (str ''Resume content and target role are required'')))"
  by (simp add: improve_invalid analyze_invalid)

theorem gateway_validates_before_calling_witness:
  "POST_improve \<lparr> session = True, generateContent = (\<lambda>call. Inr (Some (str ''text''))),
                  syntax_error_message = (\<lambda>text. []) \<rparr>
     (Inr \<lparr> resumeContent = Some [], targetRole = Some (str ''nurse''), targetArea = None,
            action = Some (str ''auto-improve''), command = None \<rparr>) =
     (error_response 400 (str ''Resume content and action are required''), []) \<and>
   POST_analyze \<lparr> session = True, generateContent = (\<lambda>call. Inr (Some (str ''text''))),
                  syntax_error_message = (\<lambda>text. []) \<rparr>
     (Inr \<lparr> resumeContent = Some (str ''Nurse.''), targetRole = None, targetArea = None,
            action = None, command = None \<rparr>) =
     (error_response 400 (str ''Resume content and target role are required''), [])"
  using gateway_validates_before_calling
    [of "\<lparr> resumeContent = Some [], targetRole = Some (str ''nurse''), targetArea = None,
            action = Some (str ''auto-improve''), command = None \<rparr>"
        "\<lparr> session = True, generateContent = (\<lambda>call. Inr (Some (str ''text''))),
                  syntax_error_message = (\<lambda>text. []) \<rparr>"]
    gateway_validates_before_calling
    [of "\<lparr> resumeContent = Some (str ''Nurse.''), targetRole = None, targetArea = None,
            action = None, command = None \<rparr>"
        "\<lparr> session = True, generateContent = (\<lambda>call. Inr (Some (str ''text''))),
                  syntax_error_message = (\<lambda>text. []) \<rparr>"]
  by (simp add: prod_eq_iff)

text \<open>
  C10: with a session, a resume text and an action that is a non-empty string other
  than \<open>auto-improve\<close> and \<open>chat-command\<close>, the improve route does not answer 400: it
  makes exactly one call, whose prompt is the empty string, and whenever that call
  yields a text it answers 200 with an empty status message.
\<close>

theorem improve_unknown_action:
  assumes "session p" and "\<not> falsy (resumeContent b)"
    and "action b = Some a" and "a \<noteq> []"
    and "a \<noteq> str ''auto-improve''" and "a \<noteq> str ''chat-command''"
    and "call = \<lparr> model = str ''gemini-2.0-flash-exp'', contents = [], maxOutputTokens = 3000 \<rparr>"
  shows "snd (POST_improve p (Inr b)) = [call] \<and>
         status (fst (POST_improve p (Inr b))) \<noteq> 400 \<and>
         (\<forall>text. generateContent p call = Inr (Some text) \<and> text \<noteq> [] \<longrightarrow>
            fst (POST_improve p (Inr b)) =
              Response 200 (JObject
                [(str ''success'', JBool True),
                 (str ''improvedContent'',
                    JString (trim (remove_at_start True label_pattern
                               (remove_all False (literal fence) (trim text))))),
                 (str ''message'', JString [])]))"
proof (cases "generateContent p call")
  case (Inl e)
  with assms show ?thesis
    by (simp add: POST_improve_def failure_response_def Let_def)
next
  case (Inr t)
  with assms show ?thesis
    by (cases t) (simp_all add: POST_improve_def failure_response_def Let_def)
qed

theorem improve_unknown_action_witness:
  "POST_improve \<lparr> session = True, generateContent = (\<lambda>call. Inr (Some (str ''Better resume''))),
                  syntax_error_message = (\<lambda>text. []) \<rparr>
     (Inr \<lparr> resumeContent = Some (str ''Nurse.''), targetRole = Some (str ''nurse''),
            targetArea = None, action = Some (str ''summarize''), command = None \<rparr>) =
     (Response 200 (JObject
        [(str ''success'', JBool True),
         (str ''improvedContent'', JString (str ''Better resume'')),
         (str ''message'', JString [])]),
      [\<lparr> model = str ''gemini-2.0-flash-exp'', contents = [], maxOutputTokens = 3000 \<rparr>])"
proof -
  let ?p = "\<lparr> session = True, generateContent = (\<lambda>call. Inr (Some (str ''Better resume''))),
                  syntax_error_message = (\<lambda>text. []) \<rparr>"
  let ?b = "\<lparr> resumeContent = Some (str ''Nurse.''), targetRole = Some (str ''nurse''),
            targetArea = None, action = Some (str ''summarize''), command = None \<rparr>"
  have t: "trim (str ''Better resume'') = str ''Better resume''"
    by (rule trim_id) (simp_all add: str_def is_space_def)
  have r: "remove_all False (literal fence) (str ''Better resume'') = str ''Better resume''"
    by (rule remove_all_literal_absent) (simp_all add: fence_def str_def)
  have l: "remove_at_start True label_pattern (str ''Better resume'') = str ''Better resume''"
    by (simp add: remove_at_start_def label_pattern_def str_def ascii_upper_def)
  have "snd (POST_improve ?p (Inr ?b)) =
          [\<lparr> model = str ''gemini-2.0-flash-exp'', contents = [], maxOutputTokens = 3000 \<rparr>] \<and>
        fst (POST_improve ?p (Inr ?b)) =
          Response 200 (JObject
            [(str ''success'', JBool True),
             (str ''improvedContent'', JString (str ''Better resume'')),
             (str ''message'', JString [])])"
    using improve_unknown_action [of ?p ?b "str ''summarize''", OF _ _ _ _ _ _ refl]
    by (simp add: t r l)
  then show ?thesis by (simp add: prod_eq_iff)
qed

text \<open>
  C8, as the route has it: when the external call yields a text that, trimmed and
  stripped of its fences, is not JSON, the analyze route answers 503 with the error
  \<open>AI analysis failed\<close> and the parser's message as details, and never with a success
  or a default analysis. That is the status and the error it also answers when the call
  itself throws; only the details tell the two apart.
\<close>

theorem analyze_malformed_payload:
  assumes "session p" "\<not> falsy (resumeContent b)" "\<not> falsy (targetRole b)"
    and "call = \<lparr> model = str ''gemini-2.0-flash-exp'', contents = analysis_prompt b,
                    maxOutputTokens = 2000 \<rparr>"
  shows "(\<forall>t. generateContent p call = Inr (Some t) \<and> t \<noteq> [] \<and>
              JSON_parse (clean_response t) = None \<longrightarrow>
            POST_analyze p (Inr b) =
              (failure_response 503 (str ''AI analysis failed'')
                 (syntax_error_message p (clean_response t)), [call])) \<and>
         (\<forall>e. generateContent p call = Inl e \<longrightarrow>
            POST_analyze p (Inr b) =
              (failure_response 503 (str ''AI analysis failed'')
                 (error_details e (str ''Gemini service unavailable'')), [call]))"
  using assms by (simp add: analyze_parse_failure analyze_call_failure)

theorem analyze_malformed_payload_witness:
  "fst (POST_analyze chatty_service (Inr sample_request)) =
     failure_response 503 (str ''AI analysis failed'') (str ''Unexpected token'')"
proof -
  have "JSON_parse (clean_response (str ''Sorry, I cannot help.'')) = None"
    by (simp add: clean_plain parse_plain)
  with analyze_malformed_payload [of chatty_service sample_request, OF _ _ _ refl]
  show ?thesis
    by (simp add: chatty_service_def sample_request_def)
qed

text \<open>
  C8 as stated (a malformed payload fails with an error distinct from the one for a
  failed call) does not hold: a service that answers in prose and a service whose call
  throws an error with the parser's message get the same response.
\<close>

theorem malformed_payload_not_distinct:
  "fst (POST_analyze chatty_service (Inr sample_request)) =
   fst (POST_analyze failing_service (Inr sample_request))"
proof -
  have "JSON_parse (clean_response (str ''Sorry, I cannot help.'')) = None"
    by (simp add: clean_plain parse_plain)
  then have "fst (POST_analyze chatty_service (Inr sample_request)) =
     failure_response 503 (str ''AI analysis failed'') (str ''Unexpected token'')"
    using analyze_parse_failure [of chatty_service sample_request, OF _ _ _ refl]
    by (simp add: chatty_service_def sample_request_def)
  moreover have "fst (POST_analyze failing_service (Inr sample_request)) =
     failure_response 503 (str ''AI analysis failed'') (str ''Unexpected token'')"
    using analyze_call_failure [of failing_service sample_request, OF _ _ _ refl]
    by (simp add: failing_service_def sample_request_def)
  ultimately show ?thesis by simp
qed

text \<open>
  C9: when the external call yields a JSON text between a line \<open>```json\<close> and a line
  \<open>```\<close> (the text itself free of backticks, 96), stripping the fences leaves the
  JSON text between two line feeds, and the route answers 200 with the value it parses
  to. For an object whose \<open>overallScore\<close> is 80 the analysis has that score.
\<close>

theorem analyze_strips_json_fence:
  assumes "session p" "\<not> falsy (resumeContent b)" "\<not> falsy (targetRole b)"
    and "generateContent p \<lparr> model = str ''gemini-2.0-flash-exp'', contents = analysis_prompt b,
                             maxOutputTokens = 2000 \<rparr> =
           Inr (Some (fence @ str ''json'' @ [10] @ j @ [10] @ fence))"
    and "96 \<notin> set j"
    and "JSON_parse ([10] @ j @ [10]) = Some analysis"
  shows "clean_response (fence @ str ''json'' @ [10] @ j @ [10] @ fence) = [10] @ j @ [10] \<and>
         fst (POST_analyze p (Inr b)) =
           Response 200 (JObject [(str ''success'', JBool True), (str ''analysis'', analysis)])"
proof -
  have c: "clean_response (fence @ str ''json'' @ [10] @ j @ [10] @ fence) = [10] @ j @ [10]"
    using assms(5) by (rule clean_fenced_json)
  have "fence @ str ''json'' @ [10] @ j @ [10] @ fence \<noteq> []"
    by (simp add: fence_def)
  with analyze_parse_success [OF assms(1-3) refl assms(4)] assms(6) c
  show ?thesis by simp
qed

theorem analyze_strips_json_fence_witness:
  "\<exists>analysis.
     fst (POST_analyze fenced_service (Inr sample_request)) =
       Response 200 (JObject [(str ''success'', JBool True), (str ''analysis'', analysis)]) \<and>
     json_get (str ''overallScore'') analysis = Some (JNumber 80)"
proof -
  let ?analysis = "JObject
       [(str ''overallScore'', JNumber 80), (str ''strengths'', JArray []),
        (str ''improvements'', JArray []), (str ''missingKeywords'', JArray []),
        (str ''enhancementAreas'', JArray []), (str ''contentSuggestions'', JArray [])]"
  have "fst (POST_analyze fenced_service (Inr sample_request)) =
       Response 200 (JObject [(str ''success'', JBool True), (str ''analysis'', ?analysis)])"
    using analyze_strips_json_fence [of fenced_service sample_request sample_analysis_text ?analysis,
        OF _ _ _ _ sample_no_backtick parse_sample]
    by (simp add: fenced_service_def sample_request_def)
  moreover have "json_get (str ''overallScore'') ?analysis = Some (JNumber 80)"
    by (simp add: json_get_def)
  ultimately show ?thesis by blast
qed

end
